theory Spec2Isabelle
  imports Main
begin

section \<open>Values and the library the program calls\<close>

text \<open>
  A Python \<^verbatim>\<open>datetime\<close>: whole seconds and the microsecond field, which
  \<^verbatim>\<open>.replace(microsecond=0)\<close> clears.
\<close>

record datetime =
  epoch_second :: int
  microsecond :: nat

text \<open>
  What a spreadsheet cell or a DataFrame element holds. \<open>VNone\<close> stands for Python's
  \<^verbatim>\<open>None\<close> in a worksheet and for every missing value of pandas (NaN, NaT, NA),
  that is, for everything \<^verbatim>\<open>pd.isna\<close> accepts. Numbers are a type parameter:
  only their equality is used.
\<close>

datatype 'n val = VNone | VStr string | VNum 'n | VDate datetime

text \<open>
  Functions of Python, pandas and \<^verbatim>\<open>os.path\<close> that the program calls and that are
  not part of the repository. A parser that raises (or yields NaN/NaT under
  \<^verbatim>\<open>errors="coerce"\<close>) returns \<open>None\<close>.
\<close>

record 'n pylib =
  py_float :: "string \<Rightarrow> 'n option"
  pd_to_numeric :: "string \<Rightarrow> 'n option"
  str_of_num :: "'n \<Rightarrow> string"
  str_of_datetime :: "datetime \<Rightarrow> string"
  parse_datetime :: "string \<Rightarrow> datetime option"
  num_to_datetime :: "'n \<Rightarrow> datetime option"
  path_dirname :: "string \<Rightarrow> string"
  path_basename :: "string \<Rightarrow> string"
  path_splitext :: "string \<Rightarrow> string \<times> string"
  path_join :: "string \<Rightarrow> string \<Rightarrow> string"

text \<open>\<^verbatim>\<open>str(v)\<close>; a missing DataFrame element is NaN, which prints as \<^verbatim>\<open>nan\<close>.\<close>

fun py_str :: "'n pylib \<Rightarrow> 'n val \<Rightarrow> string" where
  "py_str L VNone = ''nan''"
| "py_str L (VStr s) = s"
| "py_str L (VNum n) = str_of_num L n"
| "py_str L (VDate d) = str_of_datetime L d"

text \<open>
  \<^verbatim>\<open>pd.to_datetime(v, errors="coerce")\<close> on a scalar: a datetime is returned as it
  is, text is parsed, a number is read as an offset from the epoch, a missing value is NaT.
\<close>

fun to_datetime :: "'n pylib \<Rightarrow> 'n val \<Rightarrow> datetime option" where
  "to_datetime L VNone = None"
| "to_datetime L (VStr s) = parse_datetime L s"
| "to_datetime L (VNum n) = num_to_datetime L n"
| "to_datetime L (VDate d) = Some d"

subsection \<open>Strings\<close>

text \<open>
  A \<open>string\<close> is a text of code points below 256. The characters \<^verbatim>\<open>str.strip()\<close> and
  the pattern \<^verbatim>\<open>\s\<close> treat as whitespace there: tab, line feed, vertical tab, form
  feed, carriage return (9 to 13), the four separators 28 to 31, the space (32), the
  next-line control (133) and the no-break space (160).
\<close>

definition is_space :: "char \<Rightarrow> bool" where
  "is_space c =
     (let k = (of_char c :: nat)
      in (9 \<le> k \<and> k \<le> 13) \<or> (28 \<le> k \<and> k \<le> 32) \<or> k = 133 \<or> k = 160)"

definition strip :: "string \<Rightarrow> string" where
  "strip s = rev (dropWhile is_space (rev (dropWhile is_space s)))"

text \<open>\<^verbatim>\<open>re.sub(r"\s+", " ", s)\<close>: every maximal run of whitespace becomes one space.\<close>

function collapse_ws :: "string \<Rightarrow> string" where
  "collapse_ws [] = []"
| "collapse_ws (c # cs) =
     (if is_space c then CHR '' '' # collapse_ws (dropWhile is_space cs)
      else c # collapse_ws cs)"
  by pat_completeness auto
termination
  by (relation "measure length") (auto simp: less_Suc_eq_le length_dropWhile_le)

text \<open>
  \<^verbatim>\<open>str.lower()\<close> on one character: the letters A to Z, and the capital letters 192
  to 222 of the upper half (215, the multiplication sign, is not a letter), which lie
  32 below their small letters.
\<close>

definition lower_char :: "char \<Rightarrow> char" where
  "lower_char c =
     (case map_of (zip ''ABCDEFGHIJKLMNOPQRSTUVWXYZ'' ''abcdefghijklmnopqrstuvwxyz'') c of
        Some d \<Rightarrow> d
      | None \<Rightarrow>
          (let k = (of_char c :: nat)
           in if 192 \<le> k \<and> k \<le> 222 \<and> k \<noteq> 215 then char_of (k + 32) else c))"

definition lower :: "string \<Rightarrow> string" where
  "lower s = map lower_char s"

text \<open>
  \<^verbatim>\<open>_norm\<close>: normalize text for header comparisons (collapse spaces, strip,
  lowercase). The callers pass \<^verbatim>\<open>str(s)\<close> of the value.
\<close>

definition norm :: "string \<Rightarrow> string" where
  "norm s = lower (strip (collapse_ws s))"

text \<open>\<^verbatim>\<open>s.replace(",", "").replace("$", "")\<close> and \<^verbatim>\<open>re.sub(r"[,$]", "", s)\<close>.\<close>

definition drop_separators :: "string \<Rightarrow> string" where
  "drop_separators s = filter (\<lambda>c. c \<noteq> CHR '','' \<and> c \<noteq> CHR ''$'') s"

section \<open>The worksheet\<close>

text \<open>
  An openpyxl worksheet: the cells that exist, row by row (row 1 first, column 1 first),
  the reference of the AutoFilter and the references of the structured tables. A cell
  that does not exist reads \<open>VNone\<close>.
\<close>

record 'n worksheet =
  cells :: "'n val list list"
  auto_filter_ref :: "string option"
  table_refs :: "string list"

definition max_row :: "'n worksheet \<Rightarrow> nat" where
  "max_row ws = max 1 (length (cells ws))"

definition max_column :: "'n worksheet \<Rightarrow> nat" where
  "max_column ws = fold max (map length (cells ws)) 1"

text \<open>\<^verbatim>\<open>ws.cell(row=r, column=c).value\<close> for a cell inside the sheet's extent.\<close>

definition cell :: "'n worksheet \<Rightarrow> nat \<Rightarrow> nat \<Rightarrow> 'n val" where
  "cell ws r c =
     (if 1 \<le> r \<and> r \<le> length (cells ws) \<and> 1 \<le> c \<and> c \<le> length (cells ws ! (r - 1))
      then cells ws ! (r - 1) ! (c - 1) else VNone)"

definition pad_to :: "nat \<Rightarrow> 'a \<Rightarrow> 'a list \<Rightarrow> 'a list" where
  "pad_to n x xs = xs @ replicate (n - length xs) x"

text \<open>
  \<^verbatim>\<open>ws.cell(row=r, column=c, value=v)\<close>: the cell is created when it does not exist,
  and the value is assigned only when it is not \<^verbatim>\<open>None\<close>.
\<close>

definition ws_cell :: "'n worksheet \<Rightarrow> nat \<Rightarrow> nat \<Rightarrow> 'n val \<Rightarrow> 'n worksheet" where
  "ws_cell ws r c v =
     (let rs = pad_to r [] (cells ws);
          row = pad_to c VNone (rs ! (r - 1));
          row' = (if v = VNone then row else row[c - 1 := v])
      in ws\<lparr>cells := rs[r - 1 := row']\<rparr>)"

section \<open>Headers, the last used row and column resolution\<close>

text \<open>\<^verbatim>\<open>enumerate(ws[1], start=1)\<close>: the cells of row 1 with their column numbers.\<close>

definition header_cells :: "'n worksheet \<Rightarrow> (nat \<times> 'n val) list" where
  "header_cells ws = map (\<lambda>c. (c, cell ws 1 c)) [1..<max_column ws + 1]"

text \<open>
  \<^verbatim>\<open>_build_apr_header_index\<close>: normalized row 1 header to column number; a later
  column with the same normalized header replaces an earlier one.
\<close>

definition build_apr_header_index :: "'n pylib \<Rightarrow> 'n worksheet \<Rightarrow> (string \<rightharpoonup> nat)" where
  "build_apr_header_index L ws =
     fold (\<lambda>(col_idx, v) header_map.
             if v = VNone then header_map else header_map(norm (py_str L v) \<mapsto> col_idx))
          (header_cells ws) Map.empty"

text \<open>\<^verbatim>\<open>_resolve_target_col\<close>: the first candidate name found in the header index.\<close>

fun resolve_target_col :: "(string \<rightharpoonup> nat) \<Rightarrow> string list \<Rightarrow> nat option" where
  "resolve_target_col apr_header_map [] = None"
| "resolve_target_col apr_header_map (name # candidates) =
     (case apr_header_map (norm name) of
        Some col \<Rightarrow> Some col
      | None \<Rightarrow> resolve_target_col apr_header_map candidates)"

text \<open>\<^verbatim>\<open>_find_header_col\<close>: the first column whose normalized header equals the target.\<close>

definition find_header_col :: "'n pylib \<Rightarrow> 'n worksheet \<Rightarrow> string \<Rightarrow> nat option" where
  "find_header_col L ws header_text =
     map_option fst
       (find (\<lambda>(c, v). v \<noteq> VNone \<and> norm (py_str L v) = norm header_text) (header_cells ws))"

text \<open>\<^verbatim>\<open>_coerce_for_excel\<close>: missing values to None, strings stripped, the rest as is.\<close>

fun coerce_for_excel :: "'n val \<Rightarrow> 'n val" where
  "coerce_for_excel (VStr s) = VStr (strip s)"
| "coerce_for_excel v = v"

text \<open>
  \<^verbatim>\<open>_last_used_row(ws, from_row, to_col=None)\<close>: the last row from \<open>from_row\<close> on with a
  value in columns 1 to \<open>to_col\<close>, where \<open>to_col\<close> is the last column with a header
  (the sheet's width when row 1 is empty); 1 when there is no such row.
\<close>

definition header_width :: "'n worksheet \<Rightarrow> nat" where
  "header_width ws =
     (let cols = map fst (filter (\<lambda>(c, v). v \<noteq> VNone) (header_cells ws))
      in if cols = [] then max_column ws else fold max cols 0)"

definition row_used :: "'n worksheet \<Rightarrow> nat \<Rightarrow> nat \<Rightarrow> bool" where
  "row_used ws to_col r = list_ex (\<lambda>c. cell ws r c \<noteq> VNone) [1..<to_col + 1]"

definition last_used_row :: "'n worksheet \<Rightarrow> nat \<Rightarrow> nat \<times> nat" where
  "last_used_row ws from_row =
     (let to_col = header_width ws
      in (fold (\<lambda>r last. if row_used ws to_col r then r else last)
            [from_row..<max_row ws + 1] 1, to_col))"

section \<open>Identity keys\<close>

definition DEDUPE_FIELDS :: "string list" where
  "DEDUPE_FIELDS =
     [''MSISDN'', ''Purchase Date'', ''PRODUCT_NAME'', ''PURCHASE_AMT'', ''CONTRACT_ID'',
      ''PRODUCT_ID'']"

text \<open>
  The normalization of one present value, the same statements in \<^verbatim>\<open>_read_existing_keys\<close>
  (lines 245 to 254) and in \<^verbatim>\<open>_make_row_key\<close> (lines 268 to 277): dates to the second,
  amounts to float with the value itself as the fallback, strings stripped.
\<close>

definition key_part :: "'n pylib \<Rightarrow> string \<Rightarrow> 'n val \<Rightarrow> 'n val" where
  "key_part L f v =
     (if f = ''Purchase Date'' then
        (case to_datetime L v of
           None \<Rightarrow> VNone
         | Some dt \<Rightarrow> VDate (dt\<lparr>microsecond := 0\<rparr>))
      else if f = ''PURCHASE_AMT'' then
        (case py_float L (strip (drop_separators (py_str L v))) of
           Some x \<Rightarrow> VNum x
         | None \<Rightarrow> v)
      else (case v of VStr s \<Rightarrow> VStr (strip s) | _ \<Rightarrow> v))"

text \<open>
  \<^verbatim>\<open>_read_existing_keys\<close>: one key per row from 2 to the last used row, over the
  identity fields that have a column in the sheet.
\<close>

definition present_fields :: "'n pylib \<Rightarrow> 'n worksheet \<Rightarrow> (string \<times> nat) list" where
  "present_fields L ws =
     concat (map (\<lambda>f. case find_header_col L ws f of Some col \<Rightarrow> [(f, col)] | None \<Rightarrow> [])
               DEDUPE_FIELDS)"

definition ledger_row_key ::
  "'n pylib \<Rightarrow> 'n worksheet \<Rightarrow> (string \<times> nat) list \<Rightarrow> nat \<Rightarrow> 'n val list" where
  "ledger_row_key L ws present r =
     map (\<lambda>(f, col). let v = cell ws r col in if v = VNone then VNone else key_part L f v)
       present"

definition read_existing_keys :: "'n pylib \<Rightarrow> 'n worksheet \<Rightarrow> 'n val list set" where
  "read_existing_keys L ws =
     (let present = present_fields L ws
      in if present = [] then {}
         else let (last_row, _) = last_used_row ws 2
              in set (map (ledger_row_key L ws present) [2..<last_row + 1]))"

text \<open>
  A row of the monthly DataFrame (a pandas Series): its index labels and the value at a
  label.
\<close>

record 'n series =
  index :: "string list"
  at :: "string \<Rightarrow> 'n val"

text \<open>\<^verbatim>\<open>_make_row_key\<close>: one position per identity field, None when absent or missing.\<close>

definition make_row_key :: "'n pylib \<Rightarrow> 'n series \<Rightarrow> 'n val list" where
  "make_row_key L series =
     map (\<lambda>f. if f \<notin> set (index series) \<or> at series f = VNone then VNone
              else key_part L f (at series f))
       DEDUPE_FIELDS"

section \<open>The monthly report\<close>

text \<open>
  A DataFrame: the column labels and the rows; each row gives the value at a label
  (missing values are \<open>VNone\<close>).
\<close>

record 'n dataframe =
  columns :: "string list"
  data :: "(string \<Rightarrow> 'n val) list"

definition iloc :: "'n dataframe \<Rightarrow> nat \<Rightarrow> 'n series" where
  "iloc df i = \<lparr>index = columns df, at = data df ! i\<rparr>"

text \<open>\<^verbatim>\<open>df[col] = ...\<close>: replaces the column, or appends it when the label is new.\<close>

definition set_column ::
  "'n dataframe \<Rightarrow> string \<Rightarrow> ((string \<Rightarrow> 'n val) \<Rightarrow> 'n val) \<Rightarrow> 'n dataframe" where
  "set_column df col f =
     \<lparr>columns = (if col \<in> set (columns df) then columns df else columns df @ [col]),
      data = map (\<lambda>row. row(col := f row)) (data df)\<rparr>"

datatype error =
  FileNotFoundError string
| RuntimeError string
| ValueError string
| InvalidFileException string

definition aliases :: "(string \<times> string) list" where
  "aliases =
     [(''cust name'', ''Cust Name''), (''customer name'', ''Cust Name''),
      (''cust type'', ''Cust Type''), (''customer type'', ''Cust Type''),
      (''msisdn'', ''MSISDN''),
      (''purchase date'', ''Purchase Date''), (''date'', ''Purchase Date''),
      (''prod name'', ''Prod Name''), (''product name'', ''Prod Name''),
      (''amount'', ''Amount''), (''purchase amount'', ''Amount''),
      (''purchase amt'', ''Amount''),
      (''package status'', ''Package Status''), (''stat'', ''Package Status''),
      (''api credit type'', ''API Credit Type''),
      (''prod code'', ''Prod Code''), (''product id'', ''Prod Code''),
      (''crtr_id'', ''CRTR_ID''), (''crtr id'', ''CRTR_ID''), (''contract id'', ''CRTR_ID'')]"

definition canonical_label :: "string \<Rightarrow> string" where
  "canonical_label c = (case map_of aliases (norm c) of Some a \<Rightarrow> a | None \<Rightarrow> c)"

text \<open>
  \<^verbatim>\<open>_normalize_columns\<close>: rename the headers to the canonical monthly labels, then drop
  the columns that are missing in every row. When two headers get the same label,
  \<^verbatim>\<open>df[c]\<close> is a frame of several columns and the truth value of
  \<^verbatim>\<open>df[c].isna().all()\<close> raises ValueError.
\<close>

definition normalize_columns :: "'n dataframe \<Rightarrow> error + 'n dataframe" where
  "normalize_columns df =
     (let new_cols = map canonical_label (columns df);
          renamed = map (\<lambda>row label.
                           case find (\<lambda>c. canonical_label c = label) (columns df) of
                             Some c \<Rightarrow> row c
                           | None \<Rightarrow> VNone) (data df)
      in if \<not> distinct new_cols
         then Inl (ValueError ''The truth value of a Series is ambiguous'')
         else let empty_cols = filter (\<lambda>c. list_all (\<lambda>row. row c = VNone) renamed) new_cols
              in Inr \<lparr>columns = filter (\<lambda>c. c \<notin> set empty_cols) new_cols, data = renamed\<rparr>)"

text \<open>
  \<^verbatim>\<open>_coerce_and_derive\<close>: coerce the date and subscriber columns, derive the numeric
  \<^verbatim>\<open>PURCHASE_AMT\<close> from \<^verbatim>\<open>Amount\<close>, copy the monthly columns to the ledger's names
  and make sure every identity field is a column. The column operations of pandas
  are taken element by element.
\<close>

definition coerce_and_derive :: "'n pylib \<Rightarrow> 'n dataframe \<Rightarrow> 'n dataframe" where
  "coerce_and_derive L df0 =
     (let df1 = (if ''Purchase Date'' \<in> set (columns df0)
                 then set_column df0 ''Purchase Date''
                        (\<lambda>row. case to_datetime L (row ''Purchase Date'') of
                                  Some d \<Rightarrow> VDate d
                                | None \<Rightarrow> VNone)
                 else df0);
          df2 = (if ''MSISDN'' \<in> set (columns df1)
                 then set_column df1 ''MSISDN''
                        (\<lambda>row. let s = strip (py_str L (row ''MSISDN''))
                               in if lower s \<in> set [''nan'', ''none'', []] then VNone
                                  else VStr s)
                 else df1);
          df3 = (if ''Amount'' \<in> set (columns df2)
                 then set_column df2 ''PURCHASE_AMT''
                        (\<lambda>row. case pd_to_numeric L
                                       (strip (drop_separators (py_str L (row ''Amount'')))) of
                                  Some x \<Rightarrow> VNum x
                                | None \<Rightarrow> VNone)
                 else set_column df2 ''PURCHASE_AMT'' (\<lambda>row. VNone));
          df4 = set_column df3 ''PRODUCT_NAME''
                  (\<lambda>row. if ''Prod Name'' \<in> set (columns df3) then row ''Prod Name''
                          else VNone);
          df5 = set_column df4 ''PRODUCT_ID''
                  (\<lambda>row. if ''Prod Code'' \<in> set (columns df4) then row ''Prod Code''
                          else VNone);
          df6 = set_column df5 ''CONTRACT_ID''
                  (\<lambda>row. if ''CRTR_ID'' \<in> set (columns df5) then row ''CRTR_ID'' else VNone)
      in fold (\<lambda>col df. if col \<notin> set (columns df) then set_column df col (\<lambda>row. VNone)
                         else df)
           [''MSISDN'', ''Purchase Date'', ''PRODUCT_NAME'', ''PURCHASE_AMT'', ''CONTRACT_ID'',
            ''PRODUCT_ID''] df6)"

section \<open>Files\<close>

text \<open>
  A file is a workbook that openpyxl loads (its sheets by name), a report that
  \<^verbatim>\<open>pd.read_excel(path, sheet_name=0, header=3)\<close> reads (the frame it returns), or
  something neither can read. The world is the files by path and the text that
  \<^verbatim>\<open>_timestamp()\<close> returns.
\<close>

datatype 'n disk_file =
  Workbook "(string \<times> 'n worksheet) list"
| Report "'n dataframe"
| Unreadable

record 'n world =
  files :: "string \<rightharpoonup> 'n disk_file"
  timestamp :: string

text \<open>
  \<^verbatim>\<open>_read_month_file\<close>: read, or fail with RuntimeError; then normalize and derive,
  outside the \<^verbatim>\<open>try\<close>. The message of the RuntimeError is given up to the text of the
  exception that pandas raised, which follows it in the source.
\<close>

definition read_month_file :: "'n pylib \<Rightarrow> 'n world \<Rightarrow> string \<Rightarrow> error + 'n dataframe" where
  "read_month_file L w month_path =
     (case files w month_path of
        Some (Report raw) \<Rightarrow>
          (case normalize_columns raw of
             Inl e \<Rightarrow> Inl e
           | Inr df \<Rightarrow> Inr (coerce_and_derive L df))
      | _ \<Rightarrow>
          Inl (RuntimeError
                 (''Failed to read monthly file '' @ [CHR 0x27] @ month_path @ [CHR 0x27])))"

text \<open>
  \<^verbatim>\<open>_backup_master\<close>: copy the master to
  \<^verbatim>\<open>_backups/<name>_backup_<timestamp><ext>\<close> beside it; returns the path.
\<close>

definition backup_master :: "'n pylib \<Rightarrow> 'n world \<Rightarrow> string \<Rightarrow> string \<times> 'n world" where
  "backup_master L w master_path =
     (let backup_dir = path_join L (path_dirname L master_path) ''_backups'';
          (name, ext) = path_splitext L (path_basename L master_path);
          backup_path = path_join L backup_dir (name @ ''_backup_'' @ timestamp w @ ext)
      in (backup_path, w\<lparr>files := (files w)(backup_path := files w master_path)\<rparr>))"

section \<open>Ranges\<close>

definition digit_chars :: string where
  "digit_chars = ''0123456789''"

definition upper_chars :: string where
  "upper_chars = ''ABCDEFGHIJKLMNOPQRSTUVWXYZ''"

definition is_digit :: "char \<Rightarrow> bool" where
  "is_digit c = (c \<in> set digit_chars)"

definition is_alpha :: "char \<Rightarrow> bool" where
  "is_alpha c = (c \<in> set upper_chars \<or> c \<in> set ''abcdefghijklmnopqrstuvwxyz'')"

text \<open>\<^verbatim>\<open>str(n)\<close> of a row number.\<close>

function str_nat :: "nat \<Rightarrow> string" where
  "str_nat n =
     (if n < 10 then [digit_chars ! n] else str_nat (n div 10) @ [digit_chars ! (n mod 10)])"
  by pat_completeness auto
termination
  by (relation "measure id") auto

text \<open>\<^verbatim>\<open>int(s)\<close> of a string of digits.\<close>

definition digit_value :: "char \<Rightarrow> nat" where
  "digit_value c = length (takeWhile (\<lambda>d. d \<noteq> c) digit_chars)"

definition int_of_digits :: "string \<Rightarrow> nat" where
  "int_of_digits s = fold (\<lambda>c n. 10 * n + digit_value c) s 0"

text \<open>openpyxl's \<^verbatim>\<open>get_column_letter\<close>: 1 is A, 26 is Z, 27 is AA.\<close>

function get_column_letter :: "nat \<Rightarrow> string" where
  "get_column_letter n =
     (if n = 0 then []
      else get_column_letter ((n - 1) div 26) @ [upper_chars ! ((n - 1) mod 26)])"
  by pat_completeness auto
termination
  by (relation "measure id") (auto simp: less_Suc_eq_le intro: le_trans [OF div_le_dividend])

text \<open>
  One table of \<^verbatim>\<open>_expand_filters_and_tables\<close>: a reference that does not split at one
  colon, or whose start has no digits, raises inside the \<^verbatim>\<open>try\<close> and is left as it is.
\<close>

definition expand_table :: "nat \<Rightarrow> string \<Rightarrow> string" where
  "expand_table last_row ref =
     (if length (filter (\<lambda>c. c = CHR '':'') ref) \<noteq> 1 then ref
      else let start = takeWhile (\<lambda>c. c \<noteq> CHR '':'') ref;
               end = tl (dropWhile (\<lambda>c. c \<noteq> CHR '':'') ref)
           in if filter is_digit start = [] then ref
              else if int_of_digits (filter is_digit start) = 1
                   then filter is_alpha start @ ''1:'' @ filter is_alpha end @ str_nat last_row
                   else ref)"

definition expand_filters_and_tables :: "'n worksheet \<Rightarrow> 'n worksheet" where
  "expand_filters_and_tables ws =
     (let (last_row, last_col) = last_used_row ws 2;
          end_col_letter = get_column_letter last_col;
          ws1 = (case auto_filter_ref ws of
                   None \<Rightarrow> ws
                 | Some ref \<Rightarrow>
                     if ref = [] then ws
                     else ws\<lparr>auto_filter_ref :=
                               Some (''A1:'' @ end_col_letter @ str_nat last_row)\<rparr>)
      in ws1\<lparr>table_refs := map (expand_table last_row) (table_refs ws1)\<rparr>)"

text \<open>
  \<^verbatim>\<open>_normalize_purchase_date_column\<close>: every cell of the date column that is neither
  empty nor a datetime is replaced by the datetime its text parses to, when it parses.
\<close>

definition normalize_date_cell :: "'n pylib \<Rightarrow> nat \<Rightarrow> nat \<Rightarrow> 'n worksheet \<Rightarrow> 'n worksheet" where
  "normalize_date_cell L col r ws =
     (case cell ws r col of
        VNone \<Rightarrow> ws
      | VDate d \<Rightarrow> ws
      | v \<Rightarrow> (case parse_datetime L (py_str L v) of
                Some dt \<Rightarrow> ws_cell ws r col (VDate dt)
              | None \<Rightarrow> ws))"

definition normalize_purchase_date_column :: "'n pylib \<Rightarrow> 'n worksheet \<Rightarrow> 'n worksheet" where
  "normalize_purchase_date_column L ws =
     (case find_header_col L ws ''Purchase Date'' of
        None \<Rightarrow> ws
      | Some col \<Rightarrow>
          let (last_row, _) = last_used_row ws 2
          in fold (normalize_date_cell L col) [2..<last_row + 1] ws)"

section \<open>Ingestion\<close>

definition APR_SHEET :: string where
  "APR_SHEET = ''APR Bundle''"

definition COLUMN_MAP :: "(string \<times> string list) list" where
  "COLUMN_MAP =
     [(''Cust Name'', [''CUSTOMER_NAME'']),
      (''Cust Type'', [''CUSTOMER_TYPE'']),
      (''MSISDN'', [''MSISDN'']),
      (''Purchase Date'', [''Purchase Date'']),
      (''Prod Name'', [''PRODUCT_NAME'']),
      (''Amount'', [''PURCHASE_AMT'']),
      (''Package Status'', [''STAT'']),
      (''API Credit Type'', [''API Credit Type'', ''API  Credit Type'']),
      (''Prod Code'', [''PRODUCT_ID'']),
      (''CRTR_ID'', [''CONTRACT_ID''])]"

text \<open>
  The resolution loop of \<^verbatim>\<open>ingest_month_into_apr_bundle\<close>: the resolved map, the
  labels whose targets are not in the ledger, and the labels absent from the report,
  each in the order of \<^verbatim>\<open>COLUMN_MAP\<close>.
\<close>

fun resolve_mapping ::
  "(string \<rightharpoonup> nat) \<Rightarrow> string list \<Rightarrow> (string \<times> string list) list \<Rightarrow>
   (string \<times> nat) list \<times> (string \<times> string list) list \<times> string list" where
  "resolve_mapping apr_header_map month_columns [] = ([], [], [])"
| "resolve_mapping apr_header_map month_columns ((monthly_label, targets) # rest) =
     (let (resolved, skipped_targets, missing_monthly) =
            resolve_mapping apr_header_map month_columns rest
      in if monthly_label \<notin> set month_columns
         then (resolved, skipped_targets, monthly_label # missing_monthly)
         else (case resolve_target_col apr_header_map targets of
                 None \<Rightarrow> (resolved, (monthly_label, targets) # skipped_targets, missing_monthly)
               | Some col_idx \<Rightarrow>
                   ((monthly_label, col_idx) # resolved, skipped_targets, missing_monthly)))"

text \<open>The value the write loop puts into the ledger for one monthly column of a row.\<close>

definition out_value :: "'n pylib \<Rightarrow> 'n series \<Rightarrow> string \<Rightarrow> 'n val" where
  "out_value L series m_col =
     (let val = coerce_for_excel (at series m_col);
          val = (if m_col = ''Amount'' then
                   (case val of
                      VStr s \<Rightarrow>
                        (let s' = strip (drop_separators s)
                         in case py_float L s' of Some x \<Rightarrow> VNum x | None \<Rightarrow> VStr s')
                    | _ \<Rightarrow> val)
                 else val);
          val = (if m_col = ''Purchase Date'' then
                   (case to_datetime L val of
                      None \<Rightarrow> VNone
                    | Some dt \<Rightarrow> VDate (dt\<lparr>microsecond := 0\<rparr>))
                 else val)
      in val)"

text \<open>The inner loop: one cell per resolved column; remembers whether a value was written.\<close>

fun write_cells ::
  "'n pylib \<Rightarrow> 'n series \<Rightarrow> nat \<Rightarrow> (string \<times> nat) list \<Rightarrow> 'n worksheet \<times> bool \<Rightarrow>
   'n worksheet \<times> bool" where
  "write_cells L series target_row [] (ws, row_has_any) = (ws, row_has_any)"
| "write_cells L series target_row ((m_col, col_idx) # rest) (ws, row_has_any) =
     (let val = out_value L series m_col
      in write_cells L series target_row rest
           (ws_cell ws target_row col_idx val, row_has_any \<or> val \<noteq> VNone))"

record 'n loop_state =
  sheet :: "'n worksheet"
  existing_keys :: "'n val list set"
  written :: nat
  duplicates_skipped :: nat

text \<open>One iteration of the write loop.\<close>

definition write_row ::
  "'n pylib \<Rightarrow> (string \<times> nat) list \<Rightarrow> nat \<Rightarrow> 'n series \<Rightarrow> 'n loop_state \<Rightarrow> 'n loop_state"
  where
  "write_row L resolved start_row series st =
     (let row_key = make_row_key L series
      in if row_key \<in> existing_keys st
         then st\<lparr>duplicates_skipped := duplicates_skipped st + 1\<rparr>
         else let target_row = start_row + written st;
                  (ws', row_has_any) =
                    write_cells L series target_row resolved (sheet st, False)
              in if row_has_any
                 then st\<lparr>sheet := ws', written := written st + 1,
                         existing_keys := insert row_key (existing_keys st)\<rparr>
                 else st\<lparr>sheet := ws'\<rparr>)"

fun write_loop ::
  "'n pylib \<Rightarrow> (string \<times> nat) list \<Rightarrow> nat \<Rightarrow> 'n series list \<Rightarrow> 'n loop_state \<Rightarrow>
   'n loop_state" where
  "write_loop L resolved start_row [] st = st"
| "write_loop L resolved start_row (series # rest) st =
     write_loop L resolved start_row rest (write_row L resolved start_row series st)"

record ingest_result =
  master_backup :: string
  updated_master :: string
  rows_before :: nat
  rows_added :: nat
  rows_after :: nat
  sheet_name :: string
  dedupe_skipped :: "nat option"
  unmapped_monthly_columns :: "string list"
  unresolved_targets :: "(string \<times> string list) list"
  resolved_map :: "(string \<times> string) list"

text \<open>
  The part of \<^verbatim>\<open>ingest_month_into_apr_bundle\<close> between finding the sheet and saving
  the workbook, on the loaded sheet: the sheet to save (none on the empty mapping) and
  the counts and diagnostics of the result.
\<close>

record 'n sheet_run =
  saved_sheet :: "'n worksheet option"
  run_rows_before :: nat
  run_rows_added :: nat
  run_rows_after :: nat
  run_dedupe_skipped :: "nat option"
  run_missing_monthly :: "string list"
  run_skipped_targets :: "(string \<times> string list) list"
  run_resolved :: "(string \<times> nat) list"

definition ingest_sheet :: "'n pylib \<Rightarrow> 'n worksheet \<Rightarrow> 'n dataframe \<Rightarrow> 'n sheet_run" where
  "ingest_sheet L ws month_df =
     (let existing = read_existing_keys L ws;
          (last_used_before, header_width) = last_used_row ws 2;
          rows_before = last_used_before - 1;
          apr_header_map = build_apr_header_index L ws;
          (resolved, skipped_targets, missing_monthly) =
            resolve_mapping apr_header_map (columns month_df) COLUMN_MAP
      in if resolved = [] then
           \<lparr>saved_sheet = None, run_rows_before = rows_before, run_rows_added = 0,
            run_rows_after = rows_before, run_dedupe_skipped = None,
            run_missing_monthly = missing_monthly, run_skipped_targets = skipped_targets,
            run_resolved = []\<rparr>
         else
           let start_row = last_used_before + 1;
               n_rows = length (data month_df);
               st = write_loop L resolved start_row (map (iloc month_df) [0..<n_rows])
                      \<lparr>sheet = ws, existing_keys = existing, written = 0,
                       duplicates_skipped = 0\<rparr>;
               ws1 = expand_filters_and_tables (sheet st);
               ws2 = normalize_purchase_date_column L ws1;
               (last_used_after, _) = last_used_row ws2 2
           in \<lparr>saved_sheet = Some ws2, run_rows_before = rows_before,
               run_rows_added = written st, run_rows_after = last_used_after - 1,
               run_dedupe_skipped = Some (duplicates_skipped st),
               run_missing_monthly = missing_monthly, run_skipped_targets = skipped_targets,
               run_resolved = resolved\<rparr>)"

text \<open>
  \<^verbatim>\<open>ingest_month_into_apr_bundle(master_xlsm_path, month_report_path)\<close>: the result or
  the exception raised, and the files afterwards. The backup is made once the sheet is
  found and the mapping resolved; the master is written only by \<^verbatim>\<open>wb.save\<close>, after
  the write loop.
\<close>

definition ingest_month_into_apr_bundle ::
  "'n pylib \<Rightarrow> 'n world \<Rightarrow> string \<Rightarrow> string \<Rightarrow> (error + ingest_result) \<times> 'n world" where
  "ingest_month_into_apr_bundle L w master_xlsm_path month_report_path =
     (if files w master_xlsm_path = None
      then (Inl (FileNotFoundError (''Master not found: '' @ master_xlsm_path)), w)
      else if files w month_report_path = None
      then (Inl (FileNotFoundError (''Month file not found: '' @ month_report_path)), w)
      else case read_month_file L w month_report_path of
        Inl e \<Rightarrow> (Inl e, w)
      | Inr month_df \<Rightarrow>
          (case files w master_xlsm_path of
             Some (Workbook sheets) \<Rightarrow>
               (case map_of sheets APR_SHEET of
                  None \<Rightarrow>
                    (Inl (RuntimeError
                            ([CHR 0x27] @ APR_SHEET @ [CHR 0x27] @
                             '' sheet not found in master.'')), w)
                | Some ws \<Rightarrow>
                    let run = ingest_sheet L ws month_df;
                        (backup_path, w1) = backup_master L w master_xlsm_path;
                        w2 = (case saved_sheet run of
                                None \<Rightarrow> w1
                              | Some ws' \<Rightarrow>
                                  w1\<lparr>files := (files w1)(master_xlsm_path \<mapsto>
                                        Workbook (map (\<lambda>(name, s).
                                                         if name = APR_SHEET then (name, ws')
                                                         else (name, s)) sheets))\<rparr>)
                    in (Inr \<lparr>master_backup = backup_path,
                             updated_master = master_xlsm_path,
                             rows_before = run_rows_before run,
                             rows_added = run_rows_added run,
                             rows_after = run_rows_after run,
                             sheet_name = APR_SHEET,
                             dedupe_skipped = run_dedupe_skipped run,
                             unmapped_monthly_columns = run_missing_monthly run,
                             unresolved_targets = run_skipped_targets run,
                             resolved_map = map (\<lambda>(k, v). (k, get_column_letter v))
                                              (run_resolved run)\<rparr>, w2))
           | _ \<Rightarrow> (Inl (InvalidFileException master_xlsm_path), w)))"

section \<open>Notions used to state the properties\<close>

text \<open>Whether the inner loop writes at least one value for a monthly row.\<close>

definition row_has_any :: "'n pylib \<Rightarrow> (string \<times> nat) list \<Rightarrow> 'n series \<Rightarrow> bool" where
  "row_has_any L resolved series =
     list_ex (\<lambda>(m_col, col_idx). out_value L series m_col \<noteq> VNone) resolved"

text \<open>
  The content of column \<open>c\<close> of the target row after the inner loop, from its content
  before: the last value written there that is not None.
\<close>

definition written_value ::
  "'n pylib \<Rightarrow> 'n series \<Rightarrow> (string \<times> nat) list \<Rightarrow> nat \<Rightarrow> 'n val \<Rightarrow> 'n val" where
  "written_value L series resolved c old =
     fold (\<lambda>(m_col, col_idx) v.
             if col_idx = c \<and> out_value L series m_col \<noteq> VNone
             then out_value L series m_col else v) resolved old"

text \<open>The resolved columns lie inside the sheet.\<close>

definition cols_inside :: "'n worksheet \<Rightarrow> (string \<times> nat) list \<Rightarrow> bool" where
  "cols_inside ws resolved = list_all (\<lambda>(m_col, col_idx). 1 \<le> col_idx \<and> col_idx \<le> max_column ws) resolved"

text \<open>
  The rows a run of the write loop accepts, in order: those whose key is new when they
  are reached and for which a value is written.
\<close>

fun accepted_rows ::
  "'n pylib \<Rightarrow> (string \<times> nat) list \<Rightarrow> 'n val list set \<Rightarrow> 'n series list \<Rightarrow> 'n series list"
  where
  "accepted_rows L resolved keys [] = []"
| "accepted_rows L resolved keys (series # rest) =
     (if make_row_key L series \<notin> keys \<and> row_has_any L resolved series
      then series # accepted_rows L resolved (insert (make_row_key L series) keys) rest
      else accepted_rows L resolved keys rest)"

text \<open>The rows of a run that are skipped as duplicates.\<close>

fun duplicate_rows ::
  "'n pylib \<Rightarrow> (string \<times> nat) list \<Rightarrow> 'n val list set \<Rightarrow> 'n series list \<Rightarrow> 'n series list"
  where
  "duplicate_rows L resolved keys [] = []"
| "duplicate_rows L resolved keys (series # rest) =
     (if make_row_key L series \<in> keys then series # duplicate_rows L resolved keys rest
      else if row_has_any L resolved series
      then duplicate_rows L resolved (insert (make_row_key L series) keys) rest
      else duplicate_rows L resolved keys rest)"

text \<open>What the write loop keeps true of the sheet it started from.\<close>

definition loop_inv :: "'n worksheet \<Rightarrow> nat \<Rightarrow> 'n loop_state \<Rightarrow> bool" where
  "loop_inv ws0 start st \<longleftrightarrow>
     header_cells (sheet st) = header_cells ws0 \<and>
     max_column (sheet st) = max_column ws0 \<and>
     (\<forall>r c. r < start \<or> start + written st \<le> r \<longrightarrow> cell (sheet st) r c = cell ws0 r c) \<and>
     (\<forall>r. start \<le> r \<and> r < start + written st \<longrightarrow> row_used (sheet st) (header_width ws0) r)"

text \<open>What \<^verbatim>\<open>_normalize_purchase_date_column\<close> makes of one cell of the date column.\<close>

definition normalized_date_value :: "'n pylib \<Rightarrow> 'n val \<Rightarrow> 'n val" where
  "normalized_date_value L v =
     (case v of
        VNone \<Rightarrow> VNone
      | VDate d \<Rightarrow> VDate d
      | _ \<Rightarrow> (case parse_datetime L (py_str L v) of Some dt \<Rightarrow> VDate dt | None \<Rightarrow> v))"

text \<open>The state the write loop starts from.\<close>

definition initial_state :: "'n pylib \<Rightarrow> 'n worksheet \<Rightarrow> 'n loop_state" where
  "initial_state L ws =
     \<lparr>sheet = ws, existing_keys = read_existing_keys L ws, written = 0, duplicates_skipped = 0\<rparr>"

text \<open>The resolved map of a run, and the state its write loop ends in.\<close>

definition resolved_of :: "'n pylib \<Rightarrow> 'n worksheet \<Rightarrow> 'n dataframe \<Rightarrow> (string \<times> nat) list" where
  "resolved_of L ws month_df =
     fst (resolve_mapping (build_apr_header_index L ws) (columns month_df) COLUMN_MAP)"

definition month_rows :: "'n dataframe \<Rightarrow> 'n series list" where
  "month_rows month_df = map (iloc month_df) [0..<length (data month_df)]"

definition loop_result :: "'n pylib \<Rightarrow> 'n worksheet \<Rightarrow> 'n dataframe \<Rightarrow> 'n loop_state" where
  "loop_result L ws month_df =
     write_loop L (resolved_of L ws month_df) (fst (last_used_row ws 2) + 1)
       (month_rows month_df) (initial_state L ws)"

section \<open>Concrete inputs\<close>

text \<open>
  A small instance of the library, with natural numbers as the numbers: a number is
  written in decimal, text parses as a number when it consists of digits, and one date
  text parses. Paths are split at the last slash and the last dot.
\<close>

definition parse_digits :: "string \<Rightarrow> nat option" where
  "parse_digits s = (if s \<noteq> [] \<and> list_all is_digit s then Some (int_of_digits s) else None)"

definition example_lib :: "nat pylib" where
  "example_lib =
     \<lparr>py_float = parse_digits,
      pd_to_numeric = parse_digits,
      str_of_num = str_nat,
      str_of_datetime = (\<lambda>d. str_nat (nat (epoch_second d))),
      parse_datetime =
        (\<lambda>s. if s = ''2024-01-05'' then Some \<lparr>epoch_second = 1704412800, microsecond = 0\<rparr>
              else None),
      num_to_datetime = (\<lambda>n. None),
      path_dirname = (\<lambda>p. rev (tl (dropWhile (\<lambda>c. c \<noteq> CHR ''/'') (rev p)))),
      path_basename = (\<lambda>p. rev (takeWhile (\<lambda>c. c \<noteq> CHR ''/'') (rev p))),
      path_splitext =
        (\<lambda>p. (rev (tl (dropWhile (\<lambda>c. c \<noteq> CHR ''.'') (rev p))),
               CHR ''.'' # rev (takeWhile (\<lambda>c. c \<noteq> CHR ''.'') (rev p)))),
      path_join = (\<lambda>a b. a @ ''/'' @ b)\<rparr>"

text \<open>A row of a frame from its labelled values.\<close>

definition row_of :: "(string \<times> 'n val) list \<Rightarrow> string \<Rightarrow> 'n val" where
  "row_of kv label = (case map_of kv label of Some v \<Rightarrow> v | None \<Rightarrow> VNone)"

text \<open>
  A ledger with the six identity columns and the customer name, three rows, an
  AutoFilter over columns B to C and a table over the data.
\<close>

definition example_header :: "nat val list" where
  "example_header =
     [VStr ''MSISDN'', VStr ''Purchase Date'', VStr ''PRODUCT_NAME'', VStr ''PURCHASE_AMT'',
      VStr ''CONTRACT_ID'', VStr ''PRODUCT_ID'', VStr ''CUSTOMER_NAME'']"

definition example_ledger :: "nat worksheet" where
  "example_ledger =
     \<lparr>cells =
        [example_header,
         [VStr ''501'', VNone, VStr ''Gold'', VNum 5, VNone, VNone, VStr ''Ann''],
         [VStr ''502'', VNone, VStr ''Gold'', VNum 5, VNone, VNone, VStr ''Bob''],
         [VStr ''503'', VNone, VStr ''Gold'', VNum 5, VNone, VNone, VStr ''Cid'']],
      auto_filter_ref = Some ''B1:C4'',
      table_refs = [''A1:G4'']\<rparr>"

text \<open>A monthly report of five rows; the first and the fourth repeat earlier records.\<close>

definition example_report_row :: "string \<Rightarrow> string \<Rightarrow> string \<Rightarrow> nat val" where
  "example_report_row msisdn name =
     row_of [(''MSISDN'', VStr msisdn), (''Prod Name'', VStr ''Gold''), (''Amount'', VNum 5),
             (''Cust Name'', VStr name)]"

definition example_report :: "nat dataframe" where
  "example_report =
     \<lparr>columns = [''MSISDN'', ''Prod Name'', ''Amount'', ''Cust Name''],
      data = [example_report_row ''502'' ''Bob'', example_report_row ''504'' ''Dan'',
              example_report_row ''505'' ''Eve'', example_report_row ''504'' ''Dan'',
              example_report_row ''506'' ''Fay'']\<rparr>"

definition example_world :: "nat world" where
  "example_world =
     \<lparr>files = [''/data/master.xlsm'' \<mapsto> Workbook [(''APR Bundle'', example_ledger)],
               ''/data/june.xlsx'' \<mapsto> Report example_report],
      timestamp = ''20240105-101500''\<rparr>"

text \<open>A ledger with two columns and one row, and a report of one new record.\<close>

definition small_ledger :: "nat worksheet" where
  "small_ledger =
     \<lparr>cells = [[VStr ''MSISDN'', VStr ''CUSTOMER_NAME''], [VStr ''501'', VStr ''Ann'']],
      auto_filter_ref = None, table_refs = []\<rparr>"

definition small_report :: "nat dataframe" where
  "small_report =
     \<lparr>columns = [''MSISDN'', ''Cust Name''],
      data = [row_of [(''MSISDN'', VStr ''502''), (''Cust Name'', VStr ''Bob'')]]\<rparr>"

definition small_world :: "nat world" where
  "small_world =
     \<lparr>files = [''m.xlsm'' \<mapsto> Workbook [(''APR Bundle'', small_ledger)],
               ''r.xlsx'' \<mapsto> Report small_report],
      timestamp = ''20240105-101500''\<rparr>"

definition small_result :: ingest_result where
  "small_result =
     \<lparr>master_backup = ''/_backups/m_backup_20240105-101500.xlsm'',
      updated_master = ''m.xlsm'', rows_before = 1, rows_added = 1, rows_after = 2,
      sheet_name = ''APR Bundle'', dedupe_skipped = Some 0,
      unmapped_monthly_columns =
        [''Cust Type'', ''Prod Name'', ''Amount'', ''Package Status'', ''API Credit Type'',
         ''Prod Code'', ''CRTR_ID''],
      unresolved_targets = [(''Purchase Date'', [''Purchase Date''])],
      resolved_map = [(''Cust Name'', ''B''), (''MSISDN'', ''A'')]\<rparr>"

text \<open>A ledger none of whose headers is a target of the column map.\<close>

definition foreign_ledger :: "nat worksheet" where
  "foreign_ledger =
     \<lparr>cells = [[VStr ''Region'', VStr ''Notes''], [VStr ''North'', VStr ''ok'']],
      auto_filter_ref = None, table_refs = []\<rparr>"

definition foreign_world :: "nat world" where
  "foreign_world =
     \<lparr>files = [''m.xlsm'' \<mapsto> Workbook [(''APR Bundle'', foreign_ledger)],
               ''r.xlsx'' \<mapsto> Report small_report],
      timestamp = ''20240105-101500''\<rparr>"

text \<open>Worlds with a defect: no sheet of the required name, an unreadable report.\<close>

definition no_sheet_world :: "nat world" where
  "no_sheet_world =
     \<lparr>files = [''m.xlsm'' \<mapsto> Workbook [(''Sheet1'', small_ledger)],
               ''r.xlsx'' \<mapsto> Report small_report],
      timestamp = ''20240105-101500''\<rparr>"

definition unreadable_world :: "nat world" where
  "unreadable_world =
     \<lparr>files = [''m.xlsm'' \<mapsto> Workbook [(''APR Bundle'', small_ledger)],
               ''r.xlsx'' \<mapsto> Unreadable],
      timestamp = ''20240105-101500''\<rparr>"

definition empty_world :: "nat world" where
  "empty_world = \<lparr>files = Map.empty, timestamp = ''20240105-101500''\<rparr>"

definition master_only_world :: "nat world" where
  "master_only_world =
     \<lparr>files = [''m.xlsm'' \<mapsto> Workbook [(''APR Bundle'', small_ledger)]],
      timestamp = ''20240105-101500''\<rparr>"

text \<open>A report whose header row holds two spellings of the date column.\<close>

definition collision_report :: "nat dataframe" where
  "collision_report =
     \<lparr>columns = [''Date'', ''Purchase Date''],
      data = [row_of [(''Date'', VStr ''2024-01-05''), (''Purchase Date'', VStr ''2024-01-05'')]]\<rparr>"

definition collision_world :: "nat world" where
  "collision_world =
     \<lparr>files = [''m.xlsm'' \<mapsto> Workbook [(''APR Bundle'', small_ledger)],
               ''r.xlsx'' \<mapsto> Report collision_report],
      timestamp = ''20240105-101500''\<rparr>"

text \<open>
  The frame that \<^verbatim>\<open>_read_month_file\<close> returns for the report of five rows, and the
  identity key of a record of the examples.
\<close>

definition example_frame :: "nat dataframe" where
  "example_frame = projr (read_month_file example_lib example_world ''/data/june.xlsx'')"

definition example_key :: "string \<Rightarrow> nat val list" where
  "example_key msisdn = [VStr msisdn, VNone, VStr ''Gold'', VNum 5, VNone, VNone]"

text \<open>
  A report of two records that have none of the identity fields, and the run on it
  against the ledger of two columns.
\<close>

definition blank_report :: "nat dataframe" where
  "blank_report =
     \<lparr>columns = [''Cust Name''],
      data = [row_of [(''Cust Name'', VStr ''Ann'')], row_of [(''Cust Name'', VStr ''Bob'')]]\<rparr>"

definition blank_world :: "nat world" where
  "blank_world =
     \<lparr>files = [''m.xlsm'' \<mapsto> Workbook [(''APR Bundle'', small_ledger)],
               ''r.xlsx'' \<mapsto> Report blank_report],
      timestamp = ''20240105-101500''\<rparr>"

definition blank_frame :: "nat dataframe" where
  "blank_frame = projr (read_month_file example_lib blank_world ''r.xlsx'')"

definition blank_result :: ingest_result where
  "blank_result =
     \<lparr>master_backup = ''/_backups/m_backup_20240105-101500.xlsm'',
      updated_master = ''m.xlsm'', rows_before = 1, rows_added = 1, rows_after = 2,
      sheet_name = ''APR Bundle'', dedupe_skipped = Some 1,
      unmapped_monthly_columns =
        [''Cust Type'', ''Prod Name'', ''Amount'', ''Package Status'', ''API Credit Type'',
         ''Prod Code'', ''CRTR_ID''],
      unresolved_targets = [(''Purchase Date'', [''Purchase Date''])],
      resolved_map = [(''Cust Name'', ''B''), (''MSISDN'', ''A'')]\<rparr>"
section \<open>Characters by their bits\<close>

text \<open>
  The whitespace test and the lowercase map on a character given by its eight bits, the
  lowest first; these are the equations used to evaluate them.
\<close>

lemma is_space_Char [code]:
  "is_space (Char b0 b1 b2 b3 b4 b5 b6 b7) \<longleftrightarrow>
     (\<not> b7 \<and> \<not> b6 \<and> \<not> b5 \<and> \<not> b4 \<and> b3 \<and> \<not> (b2 \<and> b1) \<and> (b2 \<or> b1 \<or> b0)) \<or>
     (\<not> b7 \<and> \<not> b6 \<and> \<not> b5 \<and> b4 \<and> b3 \<and> b2) \<or>
     (\<not> b7 \<and> \<not> b6 \<and> b5 \<and> \<not> b4 \<and> \<not> b3 \<and> \<not> b2 \<and> \<not> b1 \<and> \<not> b0) \<or>
     (b7 \<and> \<not> b6 \<and> \<not> b5 \<and> \<not> b4 \<and> \<not> b3 \<and> b2 \<and> \<not> b1 \<and> b0) \<or>
     (b7 \<and> \<not> b6 \<and> b5 \<and> \<not> b4 \<and> \<not> b3 \<and> \<not> b2 \<and> \<not> b1 \<and> \<not> b0)"
  by (cases b0; cases b1; cases b2; cases b3; cases b4; cases b5; cases b6; cases b7;
      simp add: is_space_def)

lemma lower_char_Char [code]:
  "lower_char (Char b0 b1 b2 b3 b4 b5 b6 b7) =
     (if b6 \<and> \<not> b5 \<and>
         (if b7 then \<not> (b4 \<and> b2 \<and> b1 \<and> b0)
          else (b0 \<or> b1 \<or> b2 \<or> b3 \<or> b4) \<and> \<not> (b4 \<and> b3 \<and> (b2 \<or> (b1 \<and> b0))))
      then Char b0 b1 b2 b3 b4 True b6 b7 else Char b0 b1 b2 b3 b4 b5 b6 b7)"
  by (cases b0; cases b1; cases b2; cases b3; cases b4; cases b5; cases b6; cases b7;
      simp add: lower_char_def char_of_def bit_iff_odd)

section \<open>Properties of the worksheet operations\<close>

lemma fold_max_ge: "(a::nat) \<le> fold max xs a"
  by (induction xs arbitrary: a) (auto intro: order_trans [OF max.cobounded2])

lemma fold_max_mem: "(x::nat) \<in> set xs \<Longrightarrow> x \<le> fold max xs a"
proof (induction xs arbitrary: a)
  case Nil
  then show ?case by simp
next
  case (Cons y ys)
  show ?case
  proof (cases "x = y")
    case True
    have "max y a \<le> fold max ys (max y a)" by (rule fold_max_ge)
    with True show ?thesis by simp
  next
    case False
    with Cons show ?thesis by simp
  qed
qed

lemma cell_outside_row: "max_row ws < r \<Longrightarrow> cell ws r c = VNone"
  by (simp add: cell_def max_row_def)

lemma cell_outside_column: "max_column ws < c \<Longrightarrow> cell ws r c = VNone"
proof (cases "1 \<le> r \<and> r \<le> length (cells ws)")
  case True
  assume c: "max_column ws < c"
  from True have "r - 1 < length (cells ws)" by arith
  hence "cells ws ! (r - 1) \<in> set (cells ws)" by (rule nth_mem)
  hence "length (cells ws ! (r - 1)) \<in> set (map length (cells ws))" by simp
  hence "length (cells ws ! (r - 1)) \<le> max_column ws"
    unfolding max_column_def by (rule fold_max_mem)
  with c show ?thesis by (simp add: cell_def)
next
  case False
  then show ?thesis by (auto simp: cell_def)
qed

lemma length_pad_to: "length (pad_to n x xs) = max n (length xs)"
  by (simp add: pad_to_def)

lemma nth_pad_to: "i < length xs \<Longrightarrow> pad_to n x xs ! i = xs ! i"
  by (simp add: pad_to_def nth_append)

lemma nth_pad_to_new: "length xs \<le> i \<Longrightarrow> i < n \<Longrightarrow> pad_to n x xs ! i = x"
  by (simp add: pad_to_def nth_append)

lemma cell_ws_cell:
  assumes "1 \<le> r" "1 \<le> c"
  shows "cell (ws_cell ws r c v) r' c' =
           (if r' = r \<and> c' = c \<and> v \<noteq> VNone then v else cell ws r' c')"
proof -
  define rs where "rs = pad_to r [] (cells ws)"
  define row where "row = pad_to c VNone (rs ! (r - 1))"
  define row' where "row' = (if v = VNone then row else row[c - 1 := v])"
  have cs: "cells (ws_cell ws r c v) = rs[r - 1 := row']"
    by (simp add: ws_cell_def Let_def rs_def row_def row'_def)
  have lrs: "length rs = max r (length (cells ws))"
    by (simp add: rs_def length_pad_to)
  have rsn: "\<And>i. i < length (cells ws) \<Longrightarrow> rs ! i = cells ws ! i"
    by (simp add: rs_def nth_pad_to)
  have rsn2: "\<And>i. length (cells ws) \<le> i \<Longrightarrow> i < r \<Longrightarrow> rs ! i = []"
    by (simp add: rs_def nth_pad_to_new)
  have lrow: "length row = max c (length (rs ! (r - 1)))"
    by (simp add: row_def length_pad_to)
  have lrow': "length row' = length row" by (simp add: row'_def)
  have rown: "\<And>j. j < length (rs ! (r - 1)) \<Longrightarrow> row ! j = rs ! (r - 1) ! j"
    by (simp add: row_def nth_pad_to)
  have rown2: "\<And>j. length (rs ! (r - 1)) \<le> j \<Longrightarrow> j < c \<Longrightarrow> row ! j = VNone"
    by (simp add: row_def nth_pad_to_new)
  have old: "\<And>j. 1 \<le> j \<Longrightarrow> cell ws r j = (if j \<le> length (rs ! (r - 1)) then rs ! (r - 1) ! (j - 1) else VNone)"
    using assms(1) by (cases "r \<le> length (cells ws)") (auto simp: cell_def rsn rsn2)
  show ?thesis
  proof (cases "r' = r")
    case True
    have c1: "cell (ws_cell ws r c v) r c' = (if 1 \<le> c' \<and> c' \<le> length row then row' ! (c' - 1) else VNone)"
      using assms(1) by (simp add: cell_def cs lrs lrow')
    show ?thesis
    proof (cases "1 \<le> c'")
      case False
      then show ?thesis using True assms(2) by (auto simp: cell_def)
    next
      case c': True
      show ?thesis
      proof (cases "c' = c")
        case True
        then show ?thesis using \<open>r' = r\<close> c1 assms old [of c] lrow rown [of "c - 1"] rown2 [of "c - 1"]
          by (auto simp: row'_def)
      next
        case False
        then show ?thesis using \<open>r' = r\<close> c1 c' assms old [of c'] lrow rown [of "c' - 1"] rown2 [of "c' - 1"]
          by (auto simp: row'_def)
      qed
    qed
  next
    case False
    have row_eq: "(rs[r - 1 := row']) ! (r' - 1) = rs ! (r' - 1)" if "1 \<le> r'"
      using that False assms(1) by (simp add: nth_list_update)
    show ?thesis
    proof (cases "1 \<le> r' \<and> r' \<le> length (cells ws)")
      case True
      then have "r' - 1 < length (cells ws)" by arith
      hence "rs ! (r' - 1) = cells ws ! (r' - 1)" by (rule rsn)
      with True False row_eq show ?thesis
        by (auto simp: cell_def cs lrs)
    next
      case out: False
      have "cell ws r' c' = VNone" using out by (auto simp: cell_def)
      moreover have "cell (ws_cell ws r c v) r' c' = VNone"
      proof (cases "1 \<le> r' \<and> r' \<le> length rs")
        case True
        with out lrs have "length (cells ws) \<le> r' - 1" "r' - 1 < r" by auto
        hence "rs ! (r' - 1) = []" by (rule rsn2)
        with True row_eq show ?thesis by (auto simp: cell_def cs)
      next
        case False
        then show ?thesis by (auto simp: cell_def cs)
      qed
      ultimately show ?thesis using \<open>r' \<noteq> r\<close> by simp
    qed
  qed
qed

lemma max_row_ws_cell: "max_row (ws_cell ws r c v) = max (max_row ws) r"
  by (simp add: max_row_def ws_cell_def Let_def length_pad_to)

lemma fold_max_le_iff: "fold max xs (a::nat) \<le> b \<longleftrightarrow> a \<le> b \<and> (\<forall>x\<in>set xs. x \<le> b)"
  by (induction xs arbitrary: a) auto

lemma max_column_le_iff:
  "max_column ws \<le> b \<longleftrightarrow> 1 \<le> b \<and> (\<forall>i<length (cells ws). length (cells ws ! i) \<le> b)"
  by (auto simp: max_column_def fold_max_le_iff all_set_conv_all_nth)

lemma max_column_ws_cell:
  assumes "1 \<le> r" "1 \<le> c"
  shows "max_column (ws_cell ws r c v) = max (max_column ws) c"
proof -
  define rs where "rs = pad_to r [] (cells ws)"
  define row' where "row' = (let row = pad_to c VNone (rs ! (r - 1)) in if v = VNone then row else row[c - 1 := v])"
  have cs: "cells (ws_cell ws r c v) = rs[r - 1 := row']"
    by (simp add: ws_cell_def Let_def rs_def row'_def)
  have lrs: "length rs = max r (length (cells ws))"
    by (simp add: rs_def length_pad_to)
  have lrow': "length row' = max c (length (rs ! (r - 1)))"
    by (simp add: row'_def Let_def length_pad_to)
  have rs_len: "length (rs ! i) = (if i < length (cells ws) then length (cells ws ! i) else 0)"
    if "i < length rs" for i
    using that lrs by (auto simp: rs_def nth_pad_to nth_pad_to_new)
  have r1: "r - 1 < length rs" using assms(1) lrs by simp
  have "max_column (ws_cell ws r c v) \<le> b \<longleftrightarrow> max (max_column ws) c \<le> b" for b
  proof
    assume L: "max_column (ws_cell ws r c v) \<le> b"
    hence b1: "1 \<le> b" and all: "\<And>i. i < length rs \<Longrightarrow> length (rs[r - 1 := row'] ! i) \<le> b"
      by (auto simp: max_column_le_iff cs)
    from all [OF r1] r1 have "length row' \<le> b" by simp
    hence cb: "c \<le> b" and old_r: "length (rs ! (r - 1)) \<le> b" by (auto simp: lrow')
    have "length (cells ws ! i) \<le> b" if "i < length (cells ws)" for i
    proof (cases "i = r - 1")
      case True
      with old_r rs_len [of i] that r1 show ?thesis by simp
    next
      case False
      from that lrs have "i < length rs" by simp
      from all [OF this] False rs_len [OF this] that show ?thesis by simp
    qed
    with b1 cb show "max (max_column ws) c \<le> b" by (simp add: max_column_le_iff)
  next
    assume R: "max (max_column ws) c \<le> b"
    hence b1: "1 \<le> b" and cb: "c \<le> b"
      and old: "\<And>i. i < length (cells ws) \<Longrightarrow> length (cells ws ! i) \<le> b"
      by (auto simp: max_column_le_iff)
    have "length (rs[r - 1 := row'] ! i) \<le> b" if "i < length rs" for i
    proof (cases "i = r - 1")
      case True
      with that rs_len [OF that] old [of i] cb show ?thesis by (auto simp: lrow')
    next
      case False
      with that rs_len [OF that] old [of i] show ?thesis by auto
    qed
    with b1 show "max_column (ws_cell ws r c v) \<le> b" by (simp add: max_column_le_iff cs)
  qed
  thus ?thesis by (meson order_antisym order_refl)
qed

lemma header_cells_ws_cell:
  assumes "2 \<le> r" "1 \<le> c" "c \<le> max_column ws"
  shows "header_cells (ws_cell ws r c v) = header_cells ws"
  using assms by (simp add: header_cells_def max_column_ws_cell cell_ws_cell max_def)

text \<open>The last element of a list that satisfies a predicate.\<close>

lemma fold_last_cases:
  "(fold (\<lambda>r last. if P r then r else last) xs d = d \<and> (\<forall>x\<in>set xs. \<not> P x)) \<or>
   (fold (\<lambda>r last. if P r then r else last) xs d \<in> set xs \<and>
    P (fold (\<lambda>r last. if P r then r else last) xs d))"
  by (induction xs rule: rev_induct) auto

lemma fold_last_greatest:
  "sorted xs \<Longrightarrow> x \<in> set xs \<Longrightarrow> P x \<Longrightarrow>
   (x::nat) \<le> fold (\<lambda>r last. if P r then r else last) xs d"
  by (induction xs rule: rev_induct) (auto simp: sorted_append)

lemma snd_last_used_row: "snd (last_used_row ws f) = header_width ws"
  by (simp add: last_used_row_def Let_def)

lemma row_used_iff: "row_used ws w r \<longleftrightarrow> (\<exists>c. 1 \<le> c \<and> c \<le> w \<and> cell ws r c \<noteq> VNone)"
  by (auto simp: row_used_def list_ex_iff)

lemma row_used_max_row: "row_used ws w r \<Longrightarrow> r \<le> max_row ws"
  by (rule ccontr) (auto simp: row_used_iff cell_outside_row)

lemma last_used_row_cases:
  "fst (last_used_row ws 2) = 1 \<or>
   (2 \<le> fst (last_used_row ws 2) \<and> row_used ws (header_width ws) (fst (last_used_row ws 2)))"
proof -
  define xs where "xs = [2..<max_row ws + 1]"
  have l: "fst (last_used_row ws 2) =
             fold (\<lambda>r last. if row_used ws (header_width ws) r then r else last) xs 1"
    by (simp add: last_used_row_def Let_def xs_def)
  have "\<And>x. x \<in> set xs \<Longrightarrow> 2 \<le> x" by (auto simp: xs_def)
  with fold_last_cases [of "row_used ws (header_width ws)" xs 1] show ?thesis
    unfolding l by blast
qed

lemma last_used_row_ge: "1 \<le> fst (last_used_row ws 2)"
  using last_used_row_cases [of ws] by auto

lemma last_used_row_used:
  "2 \<le> fst (last_used_row ws 2) \<Longrightarrow> row_used ws (header_width ws) (fst (last_used_row ws 2))"
  using last_used_row_cases [of ws] by auto

lemma last_used_row_above:
  assumes "fst (last_used_row ws 2) < r"
  shows "\<not> row_used ws (header_width ws) r"
proof
  assume u: "row_used ws (header_width ws) r"
  hence le: "r \<le> max_row ws" by (rule row_used_max_row)
  define xs where "xs = [2..<max_row ws + 1]"
  have l: "fst (last_used_row ws 2) =
             fold (\<lambda>r last. if row_used ws (header_width ws) r then r else last) xs 1"
    by (simp add: last_used_row_def Let_def xs_def)
  from assms last_used_row_ge [of ws] have r2: "2 \<le> r" by simp
  with le have mem: "r \<in> set xs" by (auto simp: xs_def)
  have srt: "sorted xs" unfolding xs_def by (rule sorted_upt)
  have "r \<le> fst (last_used_row ws 2)"
    unfolding l
    using fold_last_greatest [of xs r "row_used ws (header_width ws)" 1] srt mem u by simp
  with assms show False by simp
qed

lemma last_used_row_unique:
  assumes above: "\<And>r. k < r \<Longrightarrow> \<not> row_used ws (header_width ws) r"
    and at: "k = 1 \<or> (2 \<le> k \<and> row_used ws (header_width ws) k)"
  shows "fst (last_used_row ws 2) = k"
proof (rule ccontr)
  assume ne: "fst (last_used_row ws 2) \<noteq> k"
  show False
  proof (cases "fst (last_used_row ws 2) < k")
    case True
    with last_used_row_ge [of ws] at have "row_used ws (header_width ws) k" by auto
    with last_used_row_above [OF True] show False by simp
  next
    case False
    with ne have gt: "k < fst (last_used_row ws 2)" by simp
    with at have "2 \<le> fst (last_used_row ws 2)" by auto
    from last_used_row_used [OF this] above [OF gt] show False by simp
  qed
qed

lemma cols_inside_iff:
  "cols_inside ws res \<longleftrightarrow> (\<forall>(m, c)\<in>set res. 1 \<le> c \<and> c \<le> max_column ws)"
  by (simp add: cols_inside_def list_all_iff)

lemma row_has_any_iff:
  "row_has_any L res s \<longleftrightarrow> (\<exists>(m, c)\<in>set res. out_value L s m \<noteq> VNone)"
  by (simp add: row_has_any_def list_ex_iff)

lemma row_has_any_Cons:
  "row_has_any L ((m, c) # res) s \<longleftrightarrow> out_value L s m \<noteq> VNone \<or> row_has_any L res s"
  by (simp add: row_has_any_def)

lemma write_cells_snd:
  "snd (write_cells L s t res (ws, b)) = (b \<or> row_has_any L res s)"
  by (induction res arbitrary: ws b) (auto simp: Let_def row_has_any_def)

lemma write_cells_max_column:
  "cols_inside ws res \<Longrightarrow> 1 \<le> t \<Longrightarrow>
   max_column (fst (write_cells L s t res (ws, b))) = max_column ws"
proof (induction res arbitrary: ws b)
  case Nil
  then show ?case by simp
next
  case (Cons a res)
  obtain m c where a: "a = (m, c)" by (cases a)
  from Cons.prems a have c: "1 \<le> c" "c \<le> max_column ws" and rest: "cols_inside ws res"
    by (auto simp: cols_inside_def)
  have mc: "max_column (ws_cell ws t c (out_value L s m)) = max_column ws"
    using c Cons.prems(2) by (simp add: max_column_ws_cell max_def)
  from rest mc have "cols_inside (ws_cell ws t c (out_value L s m)) res"
    by (simp add: cols_inside_def)
  from Cons.IH [OF this Cons.prems(2)] mc show ?case by (simp add: a Let_def)
qed

lemma write_cells_header:
  "cols_inside ws res \<Longrightarrow> 2 \<le> t \<Longrightarrow>
   header_cells (fst (write_cells L s t res (ws, b))) = header_cells ws"
proof (induction res arbitrary: ws b)
  case Nil
  then show ?case by simp
next
  case (Cons a res)
  obtain m c where a: "a = (m, c)" by (cases a)
  from Cons.prems a have c: "1 \<le> c" "c \<le> max_column ws" and rest: "cols_inside ws res"
    by (auto simp: cols_inside_def)
  have mc: "max_column (ws_cell ws t c (out_value L s m)) = max_column ws"
    using c Cons.prems(2) by (simp add: max_column_ws_cell max_def)
  have hc: "header_cells (ws_cell ws t c (out_value L s m)) = header_cells ws"
    using c Cons.prems(2) by (simp add: header_cells_ws_cell)
  from rest mc have "cols_inside (ws_cell ws t c (out_value L s m)) res"
    by (simp add: cols_inside_def)
  from Cons.IH [OF this Cons.prems(2)] hc show ?case by (simp add: a Let_def)
qed

lemma write_cells_cell:
  "cols_inside ws res \<Longrightarrow> 1 \<le> t \<Longrightarrow>
   cell (fst (write_cells L s t res (ws, b))) r c =
     (if r = t then written_value L s res c (cell ws t c) else cell ws r c)"
proof (induction res arbitrary: ws b)
  case Nil
  then show ?case by (simp add: written_value_def)
next
  case (Cons a res)
  obtain m c' where a: "a = (m, c')" by (cases a)
  from Cons.prems a have c: "1 \<le> c'" "c' \<le> max_column ws" and rest: "cols_inside ws res"
    by (auto simp: cols_inside_def)
  have mc: "max_column (ws_cell ws t c' (out_value L s m)) = max_column ws"
    using c Cons.prems(2) by (simp add: max_column_ws_cell max_def)
  from rest mc have "cols_inside (ws_cell ws t c' (out_value L s m)) res"
    by (simp add: cols_inside_def)
  from Cons.IH [OF this Cons.prems(2)] c Cons.prems(2) show ?case
    by (auto simp: a Let_def written_value_def cell_ws_cell)
qed

lemma written_value_no_value:
  "\<not> row_has_any L res s \<Longrightarrow> written_value L s res c old = old"
  by (induction res arbitrary: old) (auto simp: written_value_def row_has_any_def)

lemma written_value_other:
  "c \<notin> snd ` set res \<Longrightarrow> written_value L s res c old = old"
  by (induction res arbitrary: old) (auto simp: written_value_def)

lemma written_value_distinct:
  "distinct (map snd res) \<Longrightarrow> (m, c) \<in> set res \<Longrightarrow>
   written_value L s res c old = (if out_value L s m \<noteq> VNone then out_value L s m else old)"
proof (induction res arbitrary: old)
  case Nil
  then show ?case by simp
next
  case (Cons a res)
  obtain m' c' where a: "a = (m', c')" by (cases a)
  have step: "written_value L s (a # res) c old =
      written_value L s res c
        (if c' = c \<and> out_value L s m' \<noteq> VNone then out_value L s m' else old)"
    by (simp add: written_value_def a)
  show ?case
  proof (cases "(m, c) \<in> set res")
    case True
    with Cons.prems a have "c' \<noteq> c" by (auto simp: image_iff)
    with Cons.IH [OF _ True] Cons.prems(1) step show ?thesis by simp
  next
    case False
    with Cons.prems a have eq: "m' = m" "c' = c" by auto
    with Cons.prems(1) a have "c \<notin> snd ` set res" by auto
    hence "\<And>v. written_value L s res c v = v" by (rule written_value_other)
    with step eq show ?thesis by simp
  qed
qed

lemma written_value_not_None:
  "written_value L s res c old \<noteq> VNone \<longleftrightarrow>
     old \<noteq> VNone \<or> (\<exists>m. (m, c) \<in> set res \<and> out_value L s m \<noteq> VNone)"
proof (induction res arbitrary: old)
  case Nil
  then show ?case by (simp add: written_value_def)
next
  case (Cons a res)
  obtain m' c' where a: "a = (m', c')" by (cases a)
  have step: "written_value L s (a # res) c old =
      written_value L s res c
        (if c' = c \<and> out_value L s m' \<noteq> VNone then out_value L s m' else old)"
    by (simp add: written_value_def a)
  show ?case unfolding step Cons.IH using a by auto
qed

lemma header_cells_mem:
  "(c, v) \<in> set (header_cells ws) \<longleftrightarrow> 1 \<le> c \<and> c \<le> max_column ws \<and> v = cell ws 1 c"
  by (auto simp: header_cells_def)

lemma header_width_le: "header_width ws \<le> max_column ws"
proof -
  define cols where "cols = map fst (filter (\<lambda>(c, v). v \<noteq> VNone) (header_cells ws))"
  have "\<forall>x\<in>set cols. x \<le> max_column ws"
    by (auto simp: cols_def header_cells_mem)
  hence "fold max cols 0 \<le> max_column ws" by (simp add: fold_max_le_iff)
  thus ?thesis by (simp add: header_width_def Let_def cols_def [symmetric])
qed

lemma header_width_ge:
  assumes "1 \<le> c" "c \<le> max_column ws" "cell ws 1 c \<noteq> VNone"
  shows "c \<le> header_width ws"
proof -
  define cols where "cols = map fst (filter (\<lambda>(c, v). v \<noteq> VNone) (header_cells ws))"
  from assms have "(c, cell ws 1 c) \<in> set (header_cells ws)" by (simp add: header_cells_mem)
  with assms(3) have mem: "c \<in> set cols" by (force simp: cols_def)
  hence "cols \<noteq> []" by auto
  moreover from mem have "c \<le> fold max cols 0" by (rule fold_max_mem)
  ultimately show ?thesis by (simp add: header_width_def Let_def cols_def [symmetric])
qed

lemma header_index_fold:
  "fold (\<lambda>(col_idx, v) header_map.
           if v = VNone then header_map else header_map(norm (py_str L v) \<mapsto> col_idx)) xs m k
     = Some c \<Longrightarrow>
   m k = Some c \<or> (\<exists>v. (c, v) \<in> set xs \<and> v \<noteq> VNone \<and> norm (py_str L v) = k)"
proof (induction xs arbitrary: m)
  case Nil
  then show ?case by simp
next
  case (Cons a xs)
  obtain c' v' where a: "a = (c', v')" by (cases a)
  from Cons.prems have "fold (\<lambda>(col_idx, v) header_map.
           if v = VNone then header_map else header_map(norm (py_str L v) \<mapsto> col_idx)) xs
           (if v' = VNone then m else m(norm (py_str L v') \<mapsto> c')) k = Some c"
    by (simp add: a)
  from Cons.IH [OF this] show ?case
    by (auto simp: a split: if_splits)
qed

lemma header_index_sound:
  assumes "build_apr_header_index L ws k = Some c"
  shows "1 \<le> c \<and> c \<le> max_column ws \<and> cell ws 1 c \<noteq> VNone \<and>
         norm (py_str L (cell ws 1 c)) = k"
  using header_index_fold [OF assms [unfolded build_apr_header_index_def]]
  by (auto simp: header_cells_mem)

lemma resolve_target_col_Some:
  "resolve_target_col m ts = Some c \<Longrightarrow> \<exists>t\<in>set ts. m (norm t) = Some c"
  by (induction ts) (auto split: option.splits)

lemma resolve_mapping_Cons:
  "resolve_mapping m cols ((l, ts) # cm) =
     (if l \<notin> set cols
      then (fst (resolve_mapping m cols cm), fst (snd (resolve_mapping m cols cm)),
            l # snd (snd (resolve_mapping m cols cm)))
      else case resolve_target_col m ts of
             None \<Rightarrow> (fst (resolve_mapping m cols cm),
                       (l, ts) # fst (snd (resolve_mapping m cols cm)),
                       snd (snd (resolve_mapping m cols cm)))
           | Some c \<Rightarrow> ((l, c) # fst (resolve_mapping m cols cm),
                         fst (snd (resolve_mapping m cols cm)),
                         snd (snd (resolve_mapping m cols cm))))"
  by (cases "resolve_mapping m cols cm") (simp split: option.splits)

lemma resolve_mapping_resolved:
  "fst (resolve_mapping m cols cm) =
     concat (map (\<lambda>p. if fst p \<in> set cols
                       then (case resolve_target_col m (snd p) of
                               Some c \<Rightarrow> [(fst p, c)]
                             | None \<Rightarrow> [])
                       else []) cm)"
proof (induction cm)
  case Nil
  show ?case by simp
next
  case (Cons p cm)
  obtain l ts where p: "p = (l, ts)" by (cases p)
  show ?case unfolding p resolve_mapping_Cons using Cons.IH
    by (simp split: option.splits)
qed

lemma resolve_mapping_skipped:
  "fst (snd (resolve_mapping m cols cm)) =
     filter (\<lambda>p. fst p \<in> set cols \<and> resolve_target_col m (snd p) = None) cm"
proof (induction cm)
  case Nil
  show ?case by simp
next
  case (Cons p cm)
  obtain l ts where p: "p = (l, ts)" by (cases p)
  show ?case unfolding p resolve_mapping_Cons using Cons.IH
    by (simp split: option.splits)
qed

lemma resolve_mapping_missing:
  "snd (snd (resolve_mapping m cols cm)) = filter (\<lambda>l. l \<notin> set cols) (map fst cm)"
proof (induction cm)
  case Nil
  show ?case by simp
next
  case (Cons p cm)
  obtain l ts where p: "p = (l, ts)" by (cases p)
  show ?case unfolding p resolve_mapping_Cons using Cons.IH
    by (simp split: option.splits)
qed

lemma resolved_mem:
  "(l, c) \<in> set (fst (resolve_mapping m cols cm)) \<longleftrightarrow>
     l \<in> set cols \<and> (\<exists>ts. (l, ts) \<in> set cm \<and> resolve_target_col m ts = Some c)"
  unfolding resolve_mapping_resolved by (force split: if_splits option.splits)

lemma resolved_header:
  assumes "(l, c) \<in> set (fst (resolve_mapping (build_apr_header_index L ws) cols cm))"
  shows "1 \<le> c \<and> c \<le> header_width ws \<and> c \<le> max_column ws \<and> cell ws 1 c \<noteq> VNone \<and>
         (\<exists>ts. (l, ts) \<in> set cm \<and> norm (py_str L (cell ws 1 c)) \<in> norm ` set ts)"
proof -
  from assms obtain ts where ts: "(l, ts) \<in> set cm"
    "resolve_target_col (build_apr_header_index L ws) ts = Some c"
    by (auto simp: resolved_mem)
  from resolve_target_col_Some [OF ts(2)] obtain t where
    t: "t \<in> set ts" "build_apr_header_index L ws (norm t) = Some c" by auto
  from header_index_sound [OF t(2)] have s: "1 \<le> c" "c \<le> max_column ws"
    "cell ws 1 c \<noteq> VNone" "norm (py_str L (cell ws 1 c)) = norm t" by auto
  from header_width_ge [OF s(1,2,3)] s t(1) ts(1) show ?thesis by auto
qed

lemma resolved_cols_inside:
  "cols_inside ws (fst (resolve_mapping (build_apr_header_index L ws) cols cm))"
  unfolding cols_inside_iff using resolved_header [of _ _ L ws cols cm] by auto

lemma write_row_cases:
  "write_row L res start s st =
     (if make_row_key L s \<in> existing_keys st
      then st\<lparr>duplicates_skipped := duplicates_skipped st + 1\<rparr>
      else if row_has_any L res s
      then st\<lparr>sheet := fst (write_cells L s (start + written st) res (sheet st, False)),
              written := written st + 1,
              existing_keys := insert (make_row_key L s) (existing_keys st)\<rparr>
      else st\<lparr>sheet := fst (write_cells L s (start + written st) res (sheet st, False))\<rparr>)"
proof -
  obtain ws' b where w: "write_cells L s (start + written st) res (sheet st, False) = (ws', b)"
    by (cases "write_cells L s (start + written st) res (sheet st, False)")
  from write_cells_snd [of L s "start + written st" res "sheet st" False] w
  have b: "b = row_has_any L res s" by simp
  show ?thesis by (simp add: write_row_def Let_def w b)
qed

lemma write_row_written:
  "written (write_row L res start s st) =
     (if make_row_key L s \<notin> existing_keys st \<and> row_has_any L res s
      then written st + 1 else written st)"
  by (simp add: write_row_cases)

lemma write_row_keys:
  "existing_keys (write_row L res start s st) =
     (if make_row_key L s \<notin> existing_keys st \<and> row_has_any L res s
      then insert (make_row_key L s) (existing_keys st) else existing_keys st)"
  by (simp add: write_row_cases)

lemma write_row_duplicates:
  "duplicates_skipped (write_row L res start s st) =
     (if make_row_key L s \<in> existing_keys st
      then duplicates_skipped st + 1 else duplicates_skipped st)"
  by (simp add: write_row_cases)

lemma write_row_sheet:
  "sheet (write_row L res start s st) =
     (if make_row_key L s \<in> existing_keys st then sheet st
      else fst (write_cells L s (start + written st) res (sheet st, False)))"
  by (simp add: write_row_cases)

lemma write_loop_written:
  "written (write_loop L res start rows st) =
     written st + length (accepted_rows L res (existing_keys st) rows)"
proof (induction rows arbitrary: st)
  case Nil
  show ?case by simp
next
  case (Cons s rows)
  show ?case
    by (simp add: Cons.IH write_row_written write_row_keys)
qed

lemma write_loop_duplicates:
  "duplicates_skipped (write_loop L res start rows st) =
     duplicates_skipped st + length (duplicate_rows L res (existing_keys st) rows)"
proof (induction rows arbitrary: st)
  case Nil
  show ?case by simp
next
  case (Cons s rows)
  show ?case
    by (simp add: Cons.IH write_row_duplicates write_row_keys)
qed

lemma write_loop_keys:
  "existing_keys (write_loop L res start rows st) =
     existing_keys st \<union> make_row_key L ` set (accepted_rows L res (existing_keys st) rows)"
proof (induction rows arbitrary: st)
  case Nil
  show ?case by simp
next
  case (Cons s rows)
  have step: "existing_keys (write_loop L res start (s # rows) st) =
      existing_keys (write_row L res start s st) \<union>
      make_row_key L ` set (accepted_rows L res (existing_keys (write_row L res start s st)) rows)"
    using Cons.IH [of "write_row L res start s st"] by simp
  show ?case
  proof (cases "make_row_key L s \<notin> existing_keys st \<and> row_has_any L res s")
    case True
    hence k: "existing_keys (write_row L res start s st) = insert (make_row_key L s) (existing_keys st)"
      and a: "accepted_rows L res (existing_keys st) (s # rows) =
              s # accepted_rows L res (insert (make_row_key L s) (existing_keys st)) rows"
      by (simp_all add: write_row_keys)
    show ?thesis unfolding step k a by auto
  next
    case False
    hence k: "existing_keys (write_row L res start s st) = existing_keys st"
      and a: "accepted_rows L res (existing_keys st) (s # rows) =
              accepted_rows L res (existing_keys st) rows"
      by (auto simp: write_row_keys)
    show ?thesis unfolding step k a by simp
  qed
qed

lemma loop_invI:
  assumes "header_cells (sheet st) = header_cells ws0"
    and "max_column (sheet st) = max_column ws0"
    and "\<And>r c. r < start \<or> start + written st \<le> r \<Longrightarrow> cell (sheet st) r c = cell ws0 r c"
    and "\<And>r. start \<le> r \<Longrightarrow> r < start + written st \<Longrightarrow>
           row_used (sheet st) (header_width ws0) r"
  shows "loop_inv ws0 start st"
  unfolding loop_inv_def using assms by auto

lemma write_row_inv:
  assumes ci: "cols_inside ws0 res"
    and hw: "\<forall>(m, c)\<in>set res. c \<le> header_width ws0"
    and start: "2 \<le> start"
    and inv: "loop_inv ws0 start st"
  shows "loop_inv ws0 start (write_row L res start s st)"
proof -
  define t where "t = start + written st"
  define ws' where "ws' = fst (write_cells L s t res (sheet st, False))"
  define st' where "st' = write_row L res start s st"
  from inv have mc: "max_column (sheet st) = max_column ws0"
    and hc: "header_cells (sheet st) = header_cells ws0"
    and same: "\<And>r c. r < start \<or> start + written st \<le> r \<Longrightarrow> cell (sheet st) r c = cell ws0 r c"
    and used: "\<And>r. start \<le> r \<Longrightarrow> r < start + written st \<Longrightarrow>
                 row_used (sheet st) (header_width ws0) r"
    by (auto simp: loop_inv_def)
  from ci mc have ci': "cols_inside (sheet st) res" by (simp add: cols_inside_def)
  from start have t2: "2 \<le> t" and t1: "1 \<le> t" by (auto simp: t_def)
  have mc': "max_column ws' = max_column ws0"
    unfolding ws'_def using write_cells_max_column [OF ci' t1] mc by simp
  have hc': "header_cells ws' = header_cells ws0"
    unfolding ws'_def using write_cells_header [OF ci' t2] hc by simp
  have cell': "\<And>r c. cell ws' r c =
      (if r = t then written_value L s res c (cell (sheet st) t c) else cell (sheet st) r c)"
    unfolding ws'_def by (rule write_cells_cell [OF ci' t1])
  have sh: "sheet st' = (if make_row_key L s \<in> existing_keys st then sheet st else ws')"
    unfolding st'_def ws'_def t_def by (rule write_row_sheet)
  have wr: "written st' = (if make_row_key L s \<notin> existing_keys st \<and> row_has_any L res s
                            then written st + 1 else written st)"
    unfolding st'_def by (rule write_row_written)
  have "loop_inv ws0 start st'"
  proof (cases "make_row_key L s \<in> existing_keys st")
    case True
    hence "sheet st' = sheet st" "written st' = written st" by (simp_all add: sh wr)
    with inv show ?thesis unfolding loop_inv_def by simp
  next
    case new: False
    hence sh': "sheet st' = ws'" by (simp add: sh)
    show ?thesis
    proof (cases "row_has_any L res s")
      case True
      with new have wr': "written st' = written st + 1" by (simp add: wr)
      from True obtain m c where mc_in: "(m, c) \<in> set res" and v: "out_value L s m \<noteq> VNone"
        by (auto simp: row_has_any_iff)
      from ci mc_in have c1: "1 \<le> c" by (auto simp: cols_inside_iff)
      from hw mc_in have cw: "c \<le> header_width ws0" by auto
      from mc_in v have "written_value L s res c (cell (sheet st) t c) \<noteq> VNone"
        unfolding written_value_not_None by blast
      hence "cell ws' t c \<noteq> VNone" by (simp add: cell')
      with c1 cw have ut: "row_used ws' (header_width ws0) t"
        unfolding row_used_iff by blast
      show ?thesis
      proof (rule loop_invI)
        show "header_cells (sheet st') = header_cells ws0" by (simp add: sh' hc')
        show "max_column (sheet st') = max_column ws0" by (simp add: sh' mc')
      next
        fix r c
        assume "r < start \<or> start + written st' \<le> r"
        hence r: "r < start \<or> start + written st \<le> r" and "r \<noteq> t"
          by (auto simp: wr' t_def)
        hence "cell ws' r c = cell (sheet st) r c" by (simp add: cell')
        with same [OF r] show "cell (sheet st') r c = cell ws0 r c" by (simp add: sh')
      next
        fix r
        assume r: "start \<le> r" "r < start + written st'"
        show "row_used (sheet st') (header_width ws0) r"
        proof (cases "r = t")
          case True
          with ut show ?thesis by (simp add: sh')
        next
          case False
          with r have "r < start + written st" by (simp add: t_def wr')
          from used [OF r(1) this] have "row_used (sheet st) (header_width ws0) r" .
          moreover from False have "\<And>c. cell ws' r c = cell (sheet st) r c" by (simp add: cell')
          ultimately show ?thesis unfolding sh' row_used_iff by simp
        qed
      qed
    next
      case False
      with new have wr': "written st' = written st" by (simp add: wr)
      from False have eq: "\<And>r c. cell ws' r c = cell (sheet st) r c"
        by (simp add: cell' written_value_no_value)
      show ?thesis
      proof (rule loop_invI)
        show "header_cells (sheet st') = header_cells ws0" by (simp add: sh' hc')
        show "max_column (sheet st') = max_column ws0" by (simp add: sh' mc')
      next
        fix r c
        assume "r < start \<or> start + written st' \<le> r"
        hence r: "r < start \<or> start + written st \<le> r" by (simp add: wr')
        from same [OF r] show "cell (sheet st') r c = cell ws0 r c" by (simp add: sh' eq)
      next
        fix r
        assume r: "start \<le> r" "r < start + written st'"
        hence "r < start + written st" by (simp add: wr')
        from used [OF r(1) this] show "row_used (sheet st') (header_width ws0) r"
          unfolding sh' row_used_iff by (simp add: eq)
      qed
    qed
  qed
  thus ?thesis by (simp add: st'_def)
qed

lemma write_loop_inv:
  assumes ci: "cols_inside ws0 res"
    and hw: "\<forall>(m, c)\<in>set res. c \<le> header_width ws0"
    and start: "2 \<le> start"
  shows "loop_inv ws0 start st \<Longrightarrow> loop_inv ws0 start (write_loop L res start rows st)"
proof (induction rows arbitrary: st)
  case Nil
  then show ?case by simp
next
  case (Cons s rows)
  from write_row_inv [OF ci hw start Cons.prems] have "loop_inv ws0 start (write_row L res start s st)" .
  from Cons.IH [OF this] show ?case by simp
qed

lemma loop_inv_init:
  "loop_inv ws start \<lparr>sheet = ws, existing_keys = E, written = 0, duplicates_skipped = 0\<rparr>"
  by (auto simp: loop_inv_def)

lemma header_width_cong:
  "header_cells ws' = header_cells ws \<Longrightarrow> max_column ws' = max_column ws \<Longrightarrow>
   header_width ws' = header_width ws"
  by (simp add: header_width_def)

lemma find_header_col_cong:
  "header_cells ws' = header_cells ws \<Longrightarrow> find_header_col L ws' f = find_header_col L ws f"
  by (simp add: find_header_col_def)

lemma header_index_cong:
  "header_cells ws' = header_cells ws \<Longrightarrow>
   build_apr_header_index L ws' = build_apr_header_index L ws"
  by (simp add: build_apr_header_index_def)

lemma present_fields_cong:
  "header_cells ws' = header_cells ws \<Longrightarrow> present_fields L ws' = present_fields L ws"
  by (simp add: present_fields_def find_header_col_def)

lemma last_used_row_cong:
  assumes hw: "header_width ws' = header_width ws"
    and ru: "\<And>r. row_used ws' (header_width ws) r = row_used ws (header_width ws) r"
  shows "fst (last_used_row ws' 2) = fst (last_used_row ws 2)"
proof (rule last_used_row_unique)
  fix r
  assume "fst (last_used_row ws 2) < r"
  from last_used_row_above [OF this] show "\<not> row_used ws' (header_width ws') r"
    by (simp add: hw ru)
next
  from last_used_row_cases [of ws]
  show "fst (last_used_row ws 2) = 1 \<or>
        2 \<le> fst (last_used_row ws 2) \<and> row_used ws' (header_width ws') (fst (last_used_row ws 2))"
    by (simp add: hw ru)
qed

lemma last_used_row_pair: "last_used_row ws 2 = (fst (last_used_row ws 2), header_width ws)"
  by (simp add: last_used_row_def Let_def)

text \<open>The filter and table step changes no cell.\<close>

lemma cells_expand: "cells (expand_filters_and_tables ws) = cells ws"
  by (simp add: expand_filters_and_tables_def Let_def split: prod.splits option.splits)

lemma cell_cells_cong: "cells ws' = cells ws \<Longrightarrow> cell ws' r c = cell ws r c"
  by (simp add: cell_def)

lemma max_column_cells_cong: "cells ws' = cells ws \<Longrightarrow> max_column ws' = max_column ws"
  by (simp add: max_column_def)

lemma max_row_cells_cong: "cells ws' = cells ws \<Longrightarrow> max_row ws' = max_row ws"
  by (simp add: max_row_def)

lemma header_cells_cells_cong: "cells ws' = cells ws \<Longrightarrow> header_cells ws' = header_cells ws"
  by (simp add: header_cells_def cell_def max_column_def)

lemma cell_expand: "cell (expand_filters_and_tables ws) r c = cell ws r c"
  by (rule cell_cells_cong [OF cells_expand])

lemma header_cells_expand: "header_cells (expand_filters_and_tables ws) = header_cells ws"
  by (rule header_cells_cells_cong [OF cells_expand])

lemma max_column_expand: "max_column (expand_filters_and_tables ws) = max_column ws"
  by (rule max_column_cells_cong [OF cells_expand])

text \<open>The date step.\<close>

lemma normalized_date_value_idem:
  "normalized_date_value L (normalized_date_value L v) = normalized_date_value L v"
  by (cases v) (auto simp: normalized_date_value_def split: option.splits)

lemma normalized_date_value_None:
  "normalized_date_value L v = VNone \<longleftrightarrow> v = VNone"
  by (cases v) (auto simp: normalized_date_value_def split: option.splits)

lemma normalize_date_cell_props:
  assumes "1 \<le> col" "col \<le> max_column ws" "2 \<le> r"
  shows "max_column (normalize_date_cell L col r ws) = max_column ws"
    and "header_cells (normalize_date_cell L col r ws) = header_cells ws"
    and "cell (normalize_date_cell L col r ws) r' c =
           (if r' = r \<and> c = col then normalized_date_value L (cell ws r col) else cell ws r' c)"
proof -
  from assms have r1: "1 \<le> r" by simp
  show "max_column (normalize_date_cell L col r ws) = max_column ws"
    using assms r1
    by (cases "cell ws r col")
       (auto simp: normalize_date_cell_def max_column_ws_cell max_def split: option.splits)
  show "header_cells (normalize_date_cell L col r ws) = header_cells ws"
    using assms
    by (cases "cell ws r col")
       (auto simp: normalize_date_cell_def header_cells_ws_cell split: option.splits)
  show "cell (normalize_date_cell L col r ws) r' c =
           (if r' = r \<and> c = col then normalized_date_value L (cell ws r col) else cell ws r' c)"
    using assms r1
    by (cases "cell ws r col")
       (auto simp: normalize_date_cell_def normalized_date_value_def cell_ws_cell
             split: option.splits)
qed

lemma normalize_fold_props:
  assumes "1 \<le> col" "\<forall>r\<in>set rs. 2 \<le> r"
  shows "col \<le> max_column ws \<Longrightarrow>
         max_column (fold (normalize_date_cell L col) rs ws) = max_column ws \<and>
         header_cells (fold (normalize_date_cell L col) rs ws) = header_cells ws \<and>
         (\<forall>r c. cell (fold (normalize_date_cell L col) rs ws) r c =
            (if r \<in> set rs \<and> c = col then normalized_date_value L (cell ws r col)
             else cell ws r c))"
  using assms(2)
proof (induction rs arbitrary: ws)
  case Nil
  then show ?case by simp
next
  case (Cons r rs)
  define ws1 where "ws1 = normalize_date_cell L col r ws"
  from Cons.prems have r2: "2 \<le> r" and rest: "\<forall>r\<in>set rs. 2 \<le> r" by auto
  note p = normalize_date_cell_props [OF assms(1) Cons.prems(1) r2, of L, folded ws1_def]
  from p(1) Cons.prems(1) have c1: "col \<le> max_column ws1" by simp
  from Cons.IH [OF c1 rest] p
  show ?case
    by (auto simp: ws1_def [symmetric] normalized_date_value_idem)
qed

lemma find_Some_mem: "find P xs = Some x \<Longrightarrow> P x \<and> x \<in> set xs"
  by (induction xs) (auto split: if_splits)

lemma find_header_col_Some:
  assumes "find_header_col L ws f = Some c"
  shows "1 \<le> c \<and> c \<le> max_column ws \<and> cell ws 1 c \<noteq> VNone \<and>
         norm (py_str L (cell ws 1 c)) = norm f"
proof -
  from assms obtain v where
    "find (\<lambda>(c, v). v \<noteq> VNone \<and> norm (py_str L v) = norm f) (header_cells ws) = Some (c, v)"
    by (auto simp: find_header_col_def)
  from find_Some_mem [OF this] show ?thesis by (auto simp: header_cells_mem)
qed

lemma normalize_props:
  "max_column (normalize_purchase_date_column L ws) = max_column ws \<and>
   header_cells (normalize_purchase_date_column L ws) = header_cells ws \<and>
   (\<forall>r c. cell (normalize_purchase_date_column L ws) r c =
      (if find_header_col L ws ''Purchase Date'' = Some c \<and> 2 \<le> r \<and>
          r \<le> fst (last_used_row ws 2)
       then normalized_date_value L (cell ws r c) else cell ws r c))"
proof (cases "find_header_col L ws ''Purchase Date''")
  case None
  then show ?thesis by (simp add: normalize_purchase_date_column_def)
next
  case (Some col)
  from find_header_col_Some [OF this] have c: "1 \<le> col" "col \<le> max_column ws" by auto
  define rs where "rs = [2..<fst (last_used_row ws 2) + 1]"
  have rs: "\<forall>r\<in>set rs. 2 \<le> r" by (auto simp: rs_def)
  have mem: "\<And>r. r \<in> set rs \<longleftrightarrow> 2 \<le> r \<and> r \<le> fst (last_used_row ws 2)"
    by (auto simp: rs_def)
  have eq: "normalize_purchase_date_column L ws = fold (normalize_date_cell L col) rs ws"
    by (simp add: normalize_purchase_date_column_def Some rs_def split: prod.splits)
  from normalize_fold_props [OF c(1) rs c(2), of L] show ?thesis
    unfolding eq Some mem by auto
qed

lemma ingest_sheet_unfold:
  "ingest_sheet L ws df =
     (if resolved_of L ws df = [] then
        \<lparr>saved_sheet = None, run_rows_before = fst (last_used_row ws 2) - 1, run_rows_added = 0,
         run_rows_after = fst (last_used_row ws 2) - 1, run_dedupe_skipped = None,
         run_missing_monthly =
           snd (snd (resolve_mapping (build_apr_header_index L ws) (columns df) COLUMN_MAP)),
         run_skipped_targets =
           fst (snd (resolve_mapping (build_apr_header_index L ws) (columns df) COLUMN_MAP)),
         run_resolved = []\<rparr>
      else
        \<lparr>saved_sheet =
           Some (normalize_purchase_date_column L
                   (expand_filters_and_tables (sheet (loop_result L ws df)))),
         run_rows_before = fst (last_used_row ws 2) - 1,
         run_rows_added = written (loop_result L ws df),
         run_rows_after =
           fst (last_used_row
                  (normalize_purchase_date_column L
                     (expand_filters_and_tables (sheet (loop_result L ws df)))) 2) - 1,
         run_dedupe_skipped = Some (duplicates_skipped (loop_result L ws df)),
         run_missing_monthly =
           snd (snd (resolve_mapping (build_apr_header_index L ws) (columns df) COLUMN_MAP)),
         run_skipped_targets =
           fst (snd (resolve_mapping (build_apr_header_index L ws) (columns df) COLUMN_MAP)),
         run_resolved = resolved_of L ws df\<rparr>)"
  by (simp add: ingest_sheet_def Let_def resolved_of_def loop_result_def month_rows_def
      initial_state_def split_beta)

lemma resolved_of_inside: "cols_inside ws (resolved_of L ws df)"
  unfolding resolved_of_def by (rule resolved_cols_inside)

lemma resolved_of_header: "\<forall>(m, c)\<in>set (resolved_of L ws df). c \<le> header_width ws"
  unfolding resolved_of_def using resolved_header [of _ _ L ws "columns df" COLUMN_MAP] by auto

lemma loop_result_inv: "loop_inv ws (fst (last_used_row ws 2) + 1) (loop_result L ws df)"
  unfolding loop_result_def initial_state_def
proof (rule write_loop_inv [OF resolved_of_inside resolved_of_header _ loop_inv_init])
  from last_used_row_ge [of ws] show "2 \<le> fst (last_used_row ws 2) + 1" by simp
qed

lemma loop_inv_header_width: "loop_inv ws0 start st \<Longrightarrow> header_width (sheet st) = header_width ws0"
  by (rule header_width_cong) (simp_all add: loop_inv_def)

lemma loop_inv_last_used:
  assumes inv: "loop_inv ws (fst (last_used_row ws 2) + 1) st"
  shows "fst (last_used_row (sheet st) 2) = fst (last_used_row ws 2) + written st"
proof (rule last_used_row_unique)
  note hw = loop_inv_header_width [OF inv]
  from inv have same: "\<And>r c. r < fst (last_used_row ws 2) + 1 \<or>
        fst (last_used_row ws 2) + 1 + written st \<le> r \<Longrightarrow> cell (sheet st) r c = cell ws r c"
    and used: "\<And>r. fst (last_used_row ws 2) + 1 \<le> r \<Longrightarrow>
        r < fst (last_used_row ws 2) + 1 + written st \<Longrightarrow>
        row_used (sheet st) (header_width ws) r"
    by (auto simp: loop_inv_def)
  {
    fix r
    assume r: "fst (last_used_row ws 2) + written st < r"
    hence "\<And>c. cell (sheet st) r c = cell ws r c" by (intro same) simp
    hence "row_used (sheet st) (header_width ws) r = row_used ws (header_width ws) r"
      by (simp add: row_used_iff)
    moreover from r have "fst (last_used_row ws 2) < r" by simp
    ultimately show "\<not> row_used (sheet st) (header_width (sheet st)) r"
      using last_used_row_above [of ws r] by (simp add: hw)
  }
  show "fst (last_used_row ws 2) + written st = 1 \<or>
        2 \<le> fst (last_used_row ws 2) + written st \<and>
        row_used (sheet st) (header_width (sheet st)) (fst (last_used_row ws 2) + written st)"
  proof (cases "written st = 0")
    case True
    have "\<And>c. cell (sheet st) (fst (last_used_row ws 2)) c = cell ws (fst (last_used_row ws 2)) c"
      by (intro same) simp
    hence "row_used (sheet st) (header_width ws) (fst (last_used_row ws 2)) =
           row_used ws (header_width ws) (fst (last_used_row ws 2))"
      by (simp add: row_used_iff)
    with last_used_row_cases [of ws] True show ?thesis by (simp add: hw)
  next
    case False
    hence "row_used (sheet st) (header_width ws) (fst (last_used_row ws 2) + written st)"
      by (intro used) simp_all
    with False last_used_row_ge [of ws] show ?thesis by (simp add: hw)
  qed
qed

lemma row_used_normalize:
  "row_used (normalize_purchase_date_column L ws) w r = row_used ws w r"
  unfolding row_used_iff using normalize_props [of L ws]
  by (auto simp: normalized_date_value_None)

lemma row_used_expand: "row_used (expand_filters_and_tables ws) w r = row_used ws w r"
  by (simp add: row_used_iff cell_expand)

lemma header_width_expand: "header_width (expand_filters_and_tables ws) = header_width ws"
  by (rule header_width_cong [OF header_cells_expand max_column_expand])

lemma header_width_normalize: "header_width (normalize_purchase_date_column L ws) = header_width ws"
  using normalize_props [of L ws] by (intro header_width_cong) simp_all

lemma last_used_row_expand:
  "fst (last_used_row (expand_filters_and_tables ws) 2) = fst (last_used_row ws 2)"
  by (rule last_used_row_cong [OF header_width_expand row_used_expand])

lemma last_used_row_normalize:
  "fst (last_used_row (normalize_purchase_date_column L ws) 2) = fst (last_used_row ws 2)"
  by (rule last_used_row_cong [OF header_width_normalize row_used_normalize])

lemma ingest_sheet_rows_after:
  "run_rows_after (ingest_sheet L ws df) =
     run_rows_before (ingest_sheet L ws df) + run_rows_added (ingest_sheet L ws df)"
proof (cases "resolved_of L ws df = []")
  case True
  then show ?thesis by (simp add: ingest_sheet_unfold)
next
  case False
  have "fst (last_used_row
               (normalize_purchase_date_column L
                  (expand_filters_and_tables (sheet (loop_result L ws df)))) 2) =
        fst (last_used_row ws 2) + written (loop_result L ws df)"
    by (simp add: last_used_row_normalize last_used_row_expand
        loop_inv_last_used [OF loop_result_inv])
  with False last_used_row_ge [of ws] show ?thesis by (simp add: ingest_sheet_unfold)
qed

lemma read_month_file_Inr:
  "read_month_file L w month = Inr df \<longleftrightarrow>
     (\<exists>raw d. files w month = Some (Report raw) \<and> normalize_columns raw = Inr d \<and>
              df = coerce_and_derive L d)"
  by (auto simp: read_month_file_def split: option.splits disk_file.splits sum.splits)

lemma normalize_columns_Inr:
  "(\<exists>d. normalize_columns raw = Inr d) \<longleftrightarrow> distinct (map canonical_label (columns raw))"
  by (auto simp: normalize_columns_def Let_def)

text \<open>The result record of a run on a sheet.\<close>

lemma ingest_success:
  assumes m: "files w master = Some (Workbook sheets)"
    and s: "map_of sheets APR_SHEET = Some ws"
    and r: "read_month_file L w month = Inr df"
  shows "ingest_month_into_apr_bundle L w master month =
    (Inr \<lparr>master_backup = fst (backup_master L w master),
          updated_master = master,
          rows_before = run_rows_before (ingest_sheet L ws df),
          rows_added = run_rows_added (ingest_sheet L ws df),
          rows_after = run_rows_after (ingest_sheet L ws df),
          sheet_name = APR_SHEET,
          dedupe_skipped = run_dedupe_skipped (ingest_sheet L ws df),
          unmapped_monthly_columns = run_missing_monthly (ingest_sheet L ws df),
          unresolved_targets = run_skipped_targets (ingest_sheet L ws df),
          resolved_map = map (\<lambda>(k, v). (k, get_column_letter v))
                           (run_resolved (ingest_sheet L ws df))\<rparr>,
     case saved_sheet (ingest_sheet L ws df) of
       None \<Rightarrow> snd (backup_master L w master)
     | Some ws' \<Rightarrow>
         (snd (backup_master L w master))
           \<lparr>files := (files (snd (backup_master L w master)))(master \<mapsto>
              Workbook (map (\<lambda>(name, s). if name = APR_SHEET then (name, ws') else (name, s))
                          sheets))\<rparr>)"
proof -
  from r have "files w month \<noteq> None" by (auto simp: read_month_file_Inr)
  with m s r show ?thesis
    by (simp add: ingest_month_into_apr_bundle_def Let_def split_beta)
qed

lemma ingest_Inr_D:
  assumes "fst (ingest_month_into_apr_bundle L w master month) = Inr r"
  shows "\<exists>sheets ws df. files w master = Some (Workbook sheets) \<and>
           map_of sheets APR_SHEET = Some ws \<and> read_month_file L w month = Inr df"
  using assms
  by (auto simp: ingest_month_into_apr_bundle_def Let_def split_beta
      split: if_splits sum.splits option.splits disk_file.splits)

lemma ingest_Inl_unchanged:
  assumes "fst (ingest_month_into_apr_bundle L w master month) = Inl e"
  shows "snd (ingest_month_into_apr_bundle L w master month) = w"
  using assms
  by (auto simp: ingest_month_into_apr_bundle_def Let_def split_beta
      split: if_splits sum.splits option.splits disk_file.splits)

lemma resolved_empty_unresolved:
  assumes "fst (resolve_mapping m cols cm) = []"
  shows "fst (snd (resolve_mapping m cols cm)) = filter (\<lambda>p. fst p \<in> set cols) cm"
proof -
  have "resolve_target_col m (snd p) = None" if "p \<in> set cm" "fst p \<in> set cols" for p
  proof (cases "resolve_target_col m (snd p)")
    case None
    then show ?thesis .
  next
    case (Some c)
    obtain l ts where p: "p = (l, ts)" by (cases p)
    with that Some
    have "l \<in> set cols \<and> (\<exists>ts. (l, ts) \<in> set cm \<and> resolve_target_col m ts = Some c)"
      by auto
    hence "(l, c) \<in> set (fst (resolve_mapping m cols cm))" by (simp add: resolved_mem)
    with assms show ?thesis by simp
  qed
  hence "\<forall>p\<in>set cm. fst p \<in> set cols \<longrightarrow> resolve_target_col m (snd p) = None" by blast
  thus ?thesis unfolding resolve_mapping_skipped by (auto intro: filter_cong)
qed

lemma no_target_resolved:
  assumes "list_all (\<lambda>p. resolve_target_col m (snd p) = None) cm"
  shows "fst (resolve_mapping m cols cm) = []"
  using assms unfolding resolve_mapping_resolved by (induction cm) auto


lemma read_existing_keys_rows:
  assumes "present_fields L ws \<noteq> []"
  shows "read_existing_keys L ws =
           set (map (ledger_row_key L ws (present_fields L ws)) [2..<fst (last_used_row ws 2) + 1])"
  using assms by (simp add: read_existing_keys_def Let_def split_beta)

lemma row_has_any_resolved: "row_has_any L res s \<Longrightarrow> res \<noteq> []"
  by (auto simp: row_has_any_def)

lemma loop_result_counts:
  "written (loop_result L ws df) =
     length (accepted_rows L (resolved_of L ws df) (read_existing_keys L ws) (month_rows df))"
  "duplicates_skipped (loop_result L ws df) =
     length (duplicate_rows L (resolved_of L ws df) (read_existing_keys L ws) (month_rows df))"
  "existing_keys (loop_result L ws df) =
     read_existing_keys L ws \<union>
     make_row_key L `
       set (accepted_rows L (resolved_of L ws df) (read_existing_keys L ws) (month_rows df))"
  by (simp_all add: loop_result_def write_loop_written write_loop_duplicates write_loop_keys
      initial_state_def)

lemma make_row_key_all_null:
  assumes "\<forall>f\<in>set DEDUPE_FIELDS. f \<notin> set (index s) \<or> at s f = VNone"
  shows "make_row_key L s = replicate 6 VNone"
proof -
  have "make_row_key L s = map (\<lambda>f. VNone) DEDUPE_FIELDS"
    unfolding make_row_key_def using assms by (intro map_cong) auto
  also have "\<dots> = replicate 6 VNone"
    by (simp add: DEDUPE_FIELDS_def numeral_eq_Suc)
  finally show ?thesis .
qed

lemma write_loop_append:
  "write_loop L res start (xs @ ys) st =
     write_loop L res start ys (write_loop L res start xs st)"
  by (induction xs arbitrary: st) simp_all

lemma write_loop_keys_mono:
  "K \<in> existing_keys st \<Longrightarrow> K \<in> existing_keys (write_loop L res start rows st)"
  by (simp add: write_loop_keys)

lemma write_row_duplicate:
  "make_row_key L s \<in> existing_keys st \<Longrightarrow>
   write_row L res start s st = st\<lparr>duplicates_skipped := duplicates_skipped st + 1\<rparr>"
  by (simp add: write_row_cases)

lemma read_month_file_projr:
  assumes "files w month = Some (Report raw)"
    and "distinct (map canonical_label (columns raw))"
  shows "read_month_file L w month = Inr (projr (read_month_file L w month))"
proof -
  from assms(2) obtain d where "normalize_columns raw = Inr d"
    using normalize_columns_Inr [of raw] by blast
  with assms(1) show ?thesis by (simp add: read_month_file_def)
qed
section \<open>The result of a run\<close>

text \<open>
  C10. For every successful run the returned counts satisfy
  rows_after = rows_before + rows_added.
\<close>

theorem row_count_consistency:
  assumes "fst (ingest_month_into_apr_bundle L w master month) = Inr r"
  shows "rows_after r = rows_before r + rows_added r"
proof -
  from ingest_Inr_D [OF assms] obtain sheets ws df where
    h: "files w master = Some (Workbook sheets)" "map_of sheets APR_SHEET = Some ws"
       "read_month_file L w month = Inr df" by blast
  from assms have "r = projr (fst (ingest_month_into_apr_bundle L w master month))" by simp
  thus ?thesis
    by (simp add: ingest_success [OF h] ingest_sheet_rows_after)
qed

theorem row_count_consistency_witness:
  "fst (ingest_month_into_apr_bundle example_lib small_world ''m.xlsm'' ''r.xlsx'') =
     Inr small_result \<and>
   rows_after small_result = rows_before small_result + rows_added small_result"
proof -
  have h: "fst (ingest_month_into_apr_bundle example_lib small_world ''m.xlsm'' ''r.xlsx'') =
     Inr small_result"
    by code_simp
  from row_count_consistency [OF h] h show ?thesis by simp
qed

text \<open>
  The errors of a run. A missing ledger file, a missing monthly file, an unreadable
  monthly file and a ledger without the sheet APR Bundle each raise an error and leave
  the files as they were; every error leaves the files as they were; and when both files
  are readable, the sheet exists and the report's headers get distinct labels, the run
  returns a result whatever values the cells hold.
\<close>

theorem errors_leave_files:
  "(files w master = None \<longrightarrow>
      ingest_month_into_apr_bundle L w master month =
        (Inl (FileNotFoundError (''Master not found: '' @ master)), w)) \<and>
   (files w master \<noteq> None \<and> files w month = None \<longrightarrow>
      ingest_month_into_apr_bundle L w master month =
        (Inl (FileNotFoundError (''Month file not found: '' @ month)), w)) \<and>
   (files w master \<noteq> None \<and> files w month = Some Unreadable \<longrightarrow>
      ingest_month_into_apr_bundle L w master month =
        (Inl (RuntimeError (''Failed to read monthly file '' @ [CHR 0x27] @ month @ [CHR 0x27])), w)) \<and>
   (files w master = Some (Workbook sheets) \<and> map_of sheets APR_SHEET = None \<and>
    read_month_file L w month = Inr df \<longrightarrow>
      ingest_month_into_apr_bundle L w master month =
        (Inl (RuntimeError ([CHR 0x27] @ APR_SHEET @ [CHR 0x27] @ '' sheet not found in master.'')), w)) \<and>
   (fst (ingest_month_into_apr_bundle L w master month) = Inl e \<longrightarrow>
      snd (ingest_month_into_apr_bundle L w master month) = w) \<and>
   (files w master = Some (Workbook sheets) \<and> map_of sheets APR_SHEET = Some ws \<and>
    files w month = Some (Report raw) \<and> distinct (map canonical_label (columns raw)) \<longrightarrow>
      (\<exists>r. fst (ingest_month_into_apr_bundle L w master month) = Inr r))"
proof (intro conjI impI)
  assume "files w master = None"
  thus "ingest_month_into_apr_bundle L w master month =
        (Inl (FileNotFoundError (''Master not found: '' @ master)), w)"
    by (simp add: ingest_month_into_apr_bundle_def)
next
  assume "files w master \<noteq> None \<and> files w month = None"
  thus "ingest_month_into_apr_bundle L w master month =
        (Inl (FileNotFoundError (''Month file not found: '' @ month)), w)"
    by (simp add: ingest_month_into_apr_bundle_def)
next
  assume "files w master \<noteq> None \<and> files w month = Some Unreadable"
  thus "ingest_month_into_apr_bundle L w master month =
        (Inl (RuntimeError (''Failed to read monthly file '' @ [CHR 0x27] @ month @ [CHR 0x27])), w)"
    by (simp add: ingest_month_into_apr_bundle_def read_month_file_def)
next
  assume a: "files w master = Some (Workbook sheets) \<and> map_of sheets APR_SHEET = None \<and>
    read_month_file L w month = Inr df"
  hence "files w month \<noteq> None" by (auto simp: read_month_file_Inr)
  with a show "ingest_month_into_apr_bundle L w master month =
        (Inl (RuntimeError ([CHR 0x27] @ APR_SHEET @ [CHR 0x27] @ '' sheet not found in master.'')), w)"
    by (simp add: ingest_month_into_apr_bundle_def)
next
  assume "fst (ingest_month_into_apr_bundle L w master month) = Inl e"
  thus "snd (ingest_month_into_apr_bundle L w master month) = w"
    by (rule ingest_Inl_unchanged)
next
  assume a: "files w master = Some (Workbook sheets) \<and> map_of sheets APR_SHEET = Some ws \<and>
    files w month = Some (Report raw) \<and> distinct (map canonical_label (columns raw))"
  then obtain d where "normalize_columns raw = Inr d"
    using normalize_columns_Inr [of raw] by blast
  with a have "read_month_file L w month = Inr (coerce_and_derive L d)"
    by (simp add: read_month_file_def)
  from ingest_success [OF _ _ this, of master sheets ws] a
  show "\<exists>r. fst (ingest_month_into_apr_bundle L w master month) = Inr r" by simp
qed

theorem errors_leave_files_instances:
  "(files empty_world ''m.xlsm'' = None \<and>
    ingest_month_into_apr_bundle example_lib empty_world ''m.xlsm'' ''r.xlsx'' =
      (Inl (FileNotFoundError (''Master not found: '' @ ''m.xlsm'')), empty_world)) \<and>
   ((files master_only_world ''m.xlsm'' \<noteq> None \<and> files master_only_world ''r.xlsx'' = None) \<and>
    ingest_month_into_apr_bundle example_lib master_only_world ''m.xlsm'' ''r.xlsx'' =
      (Inl (FileNotFoundError (''Month file not found: '' @ ''r.xlsx'')), master_only_world)) \<and>
   ((files unreadable_world ''m.xlsm'' \<noteq> None \<and>
     files unreadable_world ''r.xlsx'' = Some Unreadable) \<and>
    ingest_month_into_apr_bundle example_lib unreadable_world ''m.xlsm'' ''r.xlsx'' =
      (Inl (RuntimeError (''Failed to read monthly file '' @ [CHR 0x27] @ ''r.xlsx'' @ [CHR 0x27])),
       unreadable_world)) \<and>
   ((files no_sheet_world ''m.xlsm'' = Some (Workbook [(''Sheet1'', small_ledger)]) \<and>
     map_of [(''Sheet1'', small_ledger)] APR_SHEET = None \<and>
     (\<exists>df. read_month_file example_lib no_sheet_world ''r.xlsx'' = Inr df)) \<and>
    ingest_month_into_apr_bundle example_lib no_sheet_world ''m.xlsm'' ''r.xlsx'' =
      (Inl (RuntimeError ([CHR 0x27] @ APR_SHEET @ [CHR 0x27] @ '' sheet not found in master.'')),
       no_sheet_world)) \<and>
   (fst (ingest_month_into_apr_bundle example_lib empty_world ''m.xlsm'' ''r.xlsx'') =
      Inl (FileNotFoundError (''Master not found: '' @ ''m.xlsm'')) \<and>
    snd (ingest_month_into_apr_bundle example_lib empty_world ''m.xlsm'' ''r.xlsx'') =
      empty_world) \<and>
   ((files small_world ''m.xlsm'' = Some (Workbook [(''APR Bundle'', small_ledger)]) \<and>
     map_of [(''APR Bundle'', small_ledger)] APR_SHEET = Some small_ledger \<and>
     files small_world ''r.xlsx'' = Some (Report small_report) \<and>
     distinct (map canonical_label (columns small_report))) \<and>
    (\<exists>r. fst (ingest_month_into_apr_bundle example_lib small_world ''m.xlsm'' ''r.xlsx'') =
           Inr r))"
proof -
  have d: "distinct (map canonical_label (columns small_report))" by code_simp
  have h1: "files empty_world ''m.xlsm'' = None" by (simp add: empty_world_def)
  have h2: "files master_only_world ''m.xlsm'' \<noteq> None \<and> files master_only_world ''r.xlsx'' = None"
    by (simp add: master_only_world_def)
  have h3: "files unreadable_world ''m.xlsm'' \<noteq> None \<and>
     files unreadable_world ''r.xlsx'' = Some Unreadable"
    by (simp add: unreadable_world_def)
  from d obtain d' where "normalize_columns small_report = Inr d'"
    using normalize_columns_Inr [of small_report] by blast
  hence r4: "read_month_file example_lib no_sheet_world ''r.xlsx'' =
               Inr (coerce_and_derive example_lib d')"
    by (simp add: read_month_file_def no_sheet_world_def)
  have h4: "files no_sheet_world ''m.xlsm'' = Some (Workbook [(''Sheet1'', small_ledger)]) \<and>
     map_of [(''Sheet1'', small_ledger)] APR_SHEET = None"
    by (simp add: no_sheet_world_def APR_SHEET_def)
  have h6: "files small_world ''m.xlsm'' = Some (Workbook [(''APR Bundle'', small_ledger)]) \<and>
     map_of [(''APR Bundle'', small_ledger)] APR_SHEET = Some small_ledger \<and>
     files small_world ''r.xlsx'' = Some (Report small_report)"
    by (simp add: small_world_def APR_SHEET_def)
  note t1 = errors_leave_files
    [where w = empty_world and master = "''m.xlsm''" and month = "''r.xlsx''"
       and L = example_lib
       and e = "FileNotFoundError (''Master not found: '' @ ''m.xlsm'')"]
  note t2 = errors_leave_files
    [where w = master_only_world and master = "''m.xlsm''" and month = "''r.xlsx''"
       and L = example_lib]
  note t3 = errors_leave_files
    [where w = unreadable_world and master = "''m.xlsm''" and month = "''r.xlsx''"
       and L = example_lib]
  note t4 = errors_leave_files
    [where w = no_sheet_world and master = "''m.xlsm''" and month = "''r.xlsx''"
       and L = example_lib and sheets = "[(''Sheet1'', small_ledger)]"
       and df = "coerce_and_derive example_lib d'"]
  note t6 = errors_leave_files
    [where w = small_world and master = "''m.xlsm''" and month = "''r.xlsx''"
       and L = example_lib and sheets = "[(''APR Bundle'', small_ledger)]"
       and ws = small_ledger and raw = small_report]
  from t1 h1 have c1: "ingest_month_into_apr_bundle example_lib empty_world ''m.xlsm'' ''r.xlsx'' =
      (Inl (FileNotFoundError (''Master not found: '' @ ''m.xlsm'')), empty_world)" by blast
  from t2 h2 have c2: "ingest_month_into_apr_bundle example_lib master_only_world ''m.xlsm'' ''r.xlsx'' =
      (Inl (FileNotFoundError (''Month file not found: '' @ ''r.xlsx'')), master_only_world)"
    by blast
  from t3 h3 have c3: "ingest_month_into_apr_bundle example_lib unreadable_world ''m.xlsm'' ''r.xlsx'' =
      (Inl (RuntimeError (''Failed to read monthly file '' @ [CHR 0x27] @ ''r.xlsx'' @ [CHR 0x27])),
       unreadable_world)"
    by blast
  from t4 h4 r4 have c4: "ingest_month_into_apr_bundle example_lib no_sheet_world ''m.xlsm'' ''r.xlsx'' =
      (Inl (RuntimeError ([CHR 0x27] @ APR_SHEET @ [CHR 0x27] @ '' sheet not found in master.'')),
       no_sheet_world)"
    by blast
  from c1 have f5: "fst (ingest_month_into_apr_bundle example_lib empty_world ''m.xlsm'' ''r.xlsx'') =
      Inl (FileNotFoundError (''Master not found: '' @ ''m.xlsm''))" by simp
  with t1 have c5: "snd (ingest_month_into_apr_bundle example_lib empty_world ''m.xlsm'' ''r.xlsx'') =
      empty_world" by blast
  from t6 h6 d have c6: "\<exists>r. fst (ingest_month_into_apr_bundle example_lib small_world ''m.xlsm'' ''r.xlsx'') =
           Inr r" by blast
  from h1 c1 h2 c2 h3 c3 h4 r4 c4 f5 c5 h6 d c6 show ?thesis by blast
qed

text \<open>
  C7. When the resolved column mapping is empty, the run raises no error: it copies the
  ledger to the timestamped backup path and writes nothing else, so the ledger file is
  as before, and it returns rows_added = 0, rows_after = rows_before, the labels absent
  from the report, the labels of the report without a ledger column, and the empty
  resolved map.
\<close>

theorem zero_mapping_outcome:
  assumes "files w master = Some (Workbook sheets)"
    and "map_of sheets APR_SHEET = Some ws"
    and "read_month_file L w month = Inr df"
    and "resolved_of L ws df = []"
  shows
    "let name_ext = path_splitext L (path_basename L master);
         backup_path =
           path_join L (path_join L (path_dirname L master) ''_backups'')
             (fst name_ext @ ''_backup_'' @ timestamp w @ snd name_ext);
         rows = fst (last_used_row ws 2) - 1
     in ingest_month_into_apr_bundle L w master month =
          (Inr \<lparr>master_backup = backup_path, updated_master = master, rows_before = rows,
                rows_added = 0, rows_after = rows, sheet_name = APR_SHEET,
                dedupe_skipped = None,
                unmapped_monthly_columns =
                  filter (\<lambda>label. label \<notin> set (columns df)) (map fst COLUMN_MAP),
                unresolved_targets = filter (\<lambda>p. fst p \<in> set (columns df)) COLUMN_MAP,
                resolved_map = []\<rparr>,
           w\<lparr>files := (files w)(backup_path \<mapsto> Workbook sheets)\<rparr>) \<and>
        files (snd (ingest_month_into_apr_bundle L w master month)) master = files w master"
proof -
  from assms(4) have e: "fst (resolve_mapping (build_apr_header_index L ws) (columns df) COLUMN_MAP) = []"
    by (simp add: resolved_of_def)
  have run: "ingest_sheet L ws df =
      \<lparr>saved_sheet = None, run_rows_before = fst (last_used_row ws 2) - 1, run_rows_added = 0,
       run_rows_after = fst (last_used_row ws 2) - 1, run_dedupe_skipped = None,
       run_missing_monthly = filter (\<lambda>label. label \<notin> set (columns df)) (map fst COLUMN_MAP),
       run_skipped_targets = filter (\<lambda>p. fst p \<in> set (columns df)) COLUMN_MAP,
       run_resolved = []\<rparr>"
    by (simp add: ingest_sheet_unfold assms(4) resolve_mapping_missing
        resolved_empty_unresolved [OF e])
  show ?thesis
    by (simp add: ingest_success [OF assms(1,2,3)] run backup_master_def Let_def split_beta
        assms(1))
qed

theorem zero_mapping_outcome_witness:
  "files foreign_world ''m.xlsm'' = Some (Workbook [(''APR Bundle'', foreign_ledger)]) \<and>
   map_of [(''APR Bundle'', foreign_ledger)] APR_SHEET = Some foreign_ledger \<and>
   (\<exists>df. read_month_file example_lib foreign_world ''r.xlsx'' = Inr df \<and>
         resolved_of example_lib foreign_ledger df = []) \<and>
   (\<exists>r. fst (ingest_month_into_apr_bundle example_lib foreign_world ''m.xlsm'' ''r.xlsx'') =
          Inr r \<and>
        rows_added r = 0 \<and> rows_after r = rows_before r \<and> resolved_map r = []) \<and>
   files (snd (ingest_month_into_apr_bundle example_lib foreign_world ''m.xlsm'' ''r.xlsx''))
     ''m.xlsm'' = files foreign_world ''m.xlsm''"
proof -
  have d: "distinct (map canonical_label (columns small_report))" by code_simp
  then obtain d' where "normalize_columns small_report = Inr d'"
    using normalize_columns_Inr [of small_report] by blast
  hence h3: "read_month_file example_lib foreign_world ''r.xlsx'' =
               Inr (coerce_and_derive example_lib d')"
    by (simp add: read_month_file_def foreign_world_def)
  have "list_all (\<lambda>p. resolve_target_col (build_apr_header_index example_lib foreign_ledger)
                        (snd p) = None) COLUMN_MAP"
    by code_simp
  hence h4: "resolved_of example_lib foreign_ledger (coerce_and_derive example_lib d') = []"
    unfolding resolved_of_def by (rule no_target_resolved)
  have h1: "files foreign_world ''m.xlsm'' = Some (Workbook [(''APR Bundle'', foreign_ledger)])"
    by (simp add: foreign_world_def)
  have h2: "map_of [(''APR Bundle'', foreign_ledger)] APR_SHEET = Some foreign_ledger"
    by (simp add: APR_SHEET_def)
  from zero_mapping_outcome [OF h1 h2 h3 h4] h1 h2 h3 h4 show ?thesis
    by (auto simp: Let_def)
qed

text \<open>
  C8. The four fatal conditions raise their error before the files change, and the claim
  has every other anomaly degrade without aborting the run. The code aborts on one more:
  a report whose header row holds both Date and Purchase Date. Both headers are renamed
  to Purchase Date, the test for an empty column in \<^verbatim>\<open>_normalize_columns\<close> then takes
  the truth value of a Series of two elements, and the ValueError leaves
  \<^verbatim>\<open>_read_month_file\<close> outside its \<^verbatim>\<open>try\<close>. The run on such a report, with the ledger
  and its sheet in place: the headers are distinct, the run ends in ValueError, the
  files are as before.
\<close>

theorem label_collision_aborts:
  "distinct (columns collision_report) \<and>
   files collision_world ''m.xlsm'' = Some (Workbook [(''APR Bundle'', small_ledger)]) \<and>
   map_of [(''APR Bundle'', small_ledger)] APR_SHEET = Some small_ledger \<and>
   files collision_world ''r.xlsx'' = Some (Report collision_report) \<and>
   map canonical_label (columns collision_report) = [''Purchase Date'', ''Purchase Date''] \<and>
   ingest_month_into_apr_bundle example_lib collision_world ''m.xlsm'' ''r.xlsx'' =
     (Inl (ValueError ''The truth value of a Series is ambiguous''), collision_world)"
proof -
  have c: "map canonical_label (columns collision_report) = [''Purchase Date'', ''Purchase Date'']"
    by code_simp
  have d: "distinct (columns collision_report)" by code_simp
  have f: "files collision_world ''m.xlsm'' = Some (Workbook [(''APR Bundle'', small_ledger)])"
      "files collision_world ''r.xlsx'' = Some (Report collision_report)"
    by (simp_all add: collision_world_def)
  have r: "read_month_file example_lib collision_world ''r.xlsx'' =
             Inl (ValueError ''The truth value of a Series is ambiguous'')"
    by (simp add: read_month_file_def f normalize_columns_def Let_def c)
  have "ingest_month_into_apr_bundle example_lib collision_world ''m.xlsm'' ''r.xlsx'' =
     (Inl (ValueError ''The truth value of a Series is ambiguous''), collision_world)"
    by (simp add: ingest_month_into_apr_bundle_def f r)
  with c d f show ?thesis by (simp add: APR_SHEET_def)
qed

text \<open>
  C6. A ledger of three rows with the keys K1, K2, K3 and a report of five rows, each
  with a value to write, with the keys K2, K4, K5, K4, K6 in this order, the six keys
  being different: the run accepts the second, third and fifth row (K4, K5, K6), returns
  rows_added = 3 and dedupe_skipped = 2 (the first row and the fourth), and ends with
  the six keys in the set of existing keys.
\<close>

theorem dedup_scenario:
  assumes m: "files w master = Some (Workbook sheets)"
    and s: "map_of sheets APR_SHEET = Some ws"
    and r: "read_month_file L w month = Inr df"
    and p: "present_fields L ws \<noteq> []"
    and ledger: "map (ledger_row_key L ws (present_fields L ws))
                   [2..<fst (last_used_row ws 2) + 1] = [K1, K2, K3]"
    and report: "map (make_row_key L) (month_rows df) = [K2, K4, K5, K4, K6]"
    and keys: "distinct [K1, K2, K3, K4, K5, K6]"
    and any: "list_all (row_has_any L (resolved_of L ws df)) (month_rows df)"
  shows "(\<exists>res. fst (ingest_month_into_apr_bundle L w master month) = Inr res \<and>
            rows_before res = 3 \<and> rows_added res = 3 \<and> rows_after res = 6 \<and>
            dedupe_skipped res = Some 2) \<and>
         accepted_rows L (resolved_of L ws df) (read_existing_keys L ws) (month_rows df) =
           [month_rows df ! 1, month_rows df ! 2, month_rows df ! 4] \<and>
         duplicate_rows L (resolved_of L ws df) (read_existing_keys L ws) (month_rows df) =
           [month_rows df ! 0, month_rows df ! 3] \<and>
         existing_keys (loop_result L ws df) = {K1, K2, K3, K4, K5, K6}"
proof -
  define res where "res = resolved_of L ws df"
  have E: "read_existing_keys L ws = {K1, K2, K3}"
    unfolding read_existing_keys_rows [OF p] ledger by simp
  from ledger have "length [2..<fst (last_used_row ws 2) + 1] = 3"
    by (metis length_map length_Cons list.size(3) numeral_3_eq_3)
  hence last: "fst (last_used_row ws 2) = 4" by (simp only: length_upt)
  from report obtain s1 s2 s3 s4 s5 where rows: "month_rows df = [s1, s2, s3, s4, s5]"
    and k: "make_row_key L s1 = K2" "make_row_key L s2 = K4" "make_row_key L s3 = K5"
           "make_row_key L s4 = K4" "make_row_key L s5 = K6"
    by (auto simp: map_eq_Cons_conv)
  from any rows have a: "row_has_any L res s1" "row_has_any L res s2" "row_has_any L res s3"
      "row_has_any L res s4" "row_has_any L res s5"
    by (simp_all add: res_def)
  from a(1) have ne: "res \<noteq> []" by (rule row_has_any_resolved)
  from keys have n: "K4 \<notin> {K1, K2, K3}" "K5 \<notin> insert K4 {K1, K2, K3}"
      "K6 \<notin> insert K5 (insert K4 {K1, K2, K3})"
    by auto
  have i: "K2 \<in> {K1, K2, K3}" "K4 \<in> insert K5 (insert K4 {K1, K2, K3})"
    by simp_all
  have acc: "accepted_rows L res {K1, K2, K3} [s1, s2, s3, s4, s5] = [s2, s3, s5]"
    by (simp add: k a n i del: insert_iff)
  have dup: "duplicate_rows L res {K1, K2, K3} [s1, s2, s3, s4, s5] = [s1, s4]"
    by (simp add: k a n i del: insert_iff)
  have w: "written (loop_result L ws df) = 3"
    by (simp only: loop_result_counts(1) E rows acc [unfolded res_def]) simp
  have d: "duplicates_skipped (loop_result L ws df) = 2"
    by (simp only: loop_result_counts(2) E rows dup [unfolded res_def]) simp
  have e: "existing_keys (loop_result L ws df) = {K1, K2, K3, K4, K5, K6}"
    by (simp only: loop_result_counts(3) E rows acc [unfolded res_def]) (auto simp: k)
  have run: "run_rows_before (ingest_sheet L ws df) = 3"
      "run_rows_added (ingest_sheet L ws df) = 3"
      "run_dedupe_skipped (ingest_sheet L ws df) = Some 2"
    using ne by (simp_all add: ingest_sheet_unfold res_def [symmetric] last w d)
  have after: "run_rows_after (ingest_sheet L ws df) = 6"
    by (simp add: ingest_sheet_rows_after run)
  have "\<exists>res. fst (ingest_month_into_apr_bundle L w master month) = Inr res \<and>
            rows_before res = 3 \<and> rows_added res = 3 \<and> rows_after res = 6 \<and>
            dedupe_skipped res = Some 2"
    by (simp add: ingest_success [OF m s r] run after)
  moreover have "accepted_rows L (resolved_of L ws df) (read_existing_keys L ws) (month_rows df) =
           [month_rows df ! 1, month_rows df ! 2, month_rows df ! 4]"
    by (simp only: E rows acc [unfolded res_def]) simp
  moreover have "duplicate_rows L (resolved_of L ws df) (read_existing_keys L ws) (month_rows df) =
           [month_rows df ! 0, month_rows df ! 3]"
    by (simp only: E rows dup [unfolded res_def]) simp
  ultimately show ?thesis using e by blast
qed

theorem dedup_scenario_witness:
  "files example_world ''/data/master.xlsm'' = Some (Workbook [(''APR Bundle'', example_ledger)]) \<and>
   map_of [(''APR Bundle'', example_ledger)] APR_SHEET = Some example_ledger \<and>
   read_month_file example_lib example_world ''/data/june.xlsx'' = Inr example_frame \<and>
   present_fields example_lib example_ledger \<noteq> [] \<and>
   map (ledger_row_key example_lib example_ledger (present_fields example_lib example_ledger))
     [2..<fst (last_used_row example_ledger 2) + 1] =
     [example_key ''501'', example_key ''502'', example_key ''503''] \<and>
   map (make_row_key example_lib) (month_rows example_frame) =
     [example_key ''502'', example_key ''504'', example_key ''505'', example_key ''504'',
      example_key ''506''] \<and>
   distinct [example_key ''501'', example_key ''502'', example_key ''503'', example_key ''504'',
             example_key ''505'', example_key ''506''] \<and>
   list_all (row_has_any example_lib (resolved_of example_lib example_ledger example_frame))
     (month_rows example_frame) \<and>
   (\<exists>res. fst (ingest_month_into_apr_bundle example_lib example_world ''/data/master.xlsm''
                  ''/data/june.xlsx'') = Inr res \<and>
          rows_before res = 3 \<and> rows_added res = 3 \<and> rows_after res = 6 \<and>
          dedupe_skipped res = Some 2) \<and>
   existing_keys (loop_result example_lib example_ledger example_frame) =
     {example_key ''501'', example_key ''502'', example_key ''503'', example_key ''504'',
      example_key ''505'', example_key ''506''}"
proof -
  have m: "files example_world ''/data/master.xlsm'' =
             Some (Workbook [(''APR Bundle'', example_ledger)])"
    by (simp add: example_world_def)
  have s: "map_of [(''APR Bundle'', example_ledger)] APR_SHEET = Some example_ledger"
    by (simp add: APR_SHEET_def)
  have "distinct (map canonical_label (columns example_report))" by code_simp
  then obtain d where "normalize_columns example_report = Inr d"
    using normalize_columns_Inr [of example_report] by blast
  hence "read_month_file example_lib example_world ''/data/june.xlsx'' =
           Inr (coerce_and_derive example_lib d)"
    by (simp add: read_month_file_def example_world_def)
  hence r: "read_month_file example_lib example_world ''/data/june.xlsx'' = Inr example_frame"
    by (simp add: example_frame_def)
  have p: "present_fields example_lib example_ledger \<noteq> []" by code_simp
  have ledger:
    "map (ledger_row_key example_lib example_ledger (present_fields example_lib example_ledger))
       [2..<fst (last_used_row example_ledger 2) + 1] =
     [example_key ''501'', example_key ''502'', example_key ''503'']"
    by code_simp
  have report: "map (make_row_key example_lib) (month_rows example_frame) =
     [example_key ''502'', example_key ''504'', example_key ''505'', example_key ''504'',
      example_key ''506'']"
    by code_simp
  have keys: "distinct [example_key ''501'', example_key ''502'', example_key ''503'',
                        example_key ''504'', example_key ''505'', example_key ''506'']"
    by code_simp
  have any: "list_all (row_has_any example_lib
                         (resolved_of example_lib example_ledger example_frame))
               (month_rows example_frame)"
    by code_simp
  from dedup_scenario [OF m s r p ledger report keys any] m s r p ledger report keys any
  show ?thesis by blast
qed

text \<open>
  C3, as stated, at a report of two different records without any identity field: both
  keys are all null, the first record is written and the second is skipped as a
  duplicate of it, so the run adds one row and counts one duplicate.
\<close>

theorem all_null_keys_deduplicated:
  "read_month_file example_lib blank_world ''r.xlsx'' = Inr blank_frame \<and>
   length (month_rows blank_frame) = 2 \<and>
   at (month_rows blank_frame ! 0) ''Cust Name'' = VStr ''Ann'' \<and>
   at (month_rows blank_frame ! 1) ''Cust Name'' = VStr ''Bob'' \<and>
   make_row_key example_lib (month_rows blank_frame ! 0) = replicate 6 VNone \<and>
   make_row_key example_lib (month_rows blank_frame ! 1) = replicate 6 VNone \<and>
   fst (ingest_month_into_apr_bundle example_lib blank_world ''m.xlsm'' ''r.xlsx'') =
     Inr blank_result \<and>
   rows_added blank_result = 1 \<and> dedupe_skipped blank_result = Some 1"
proof -
  have "distinct (map canonical_label (columns blank_report))" by code_simp
  hence r: "read_month_file example_lib blank_world ''r.xlsx'' = Inr blank_frame"
    unfolding blank_frame_def
    by (intro read_month_file_projr [of _ _ blank_report]) (simp_all add: blank_world_def)
  have l: "length (month_rows blank_frame) = 2" by code_simp
  have v: "at (month_rows blank_frame ! 0) ''Cust Name'' = VStr ''Ann''"
      "at (month_rows blank_frame ! 1) ''Cust Name'' = VStr ''Bob''"
    by code_simp+
  have k: "make_row_key example_lib (month_rows blank_frame ! 0) = replicate 6 VNone"
      "make_row_key example_lib (month_rows blank_frame ! 1) = replicate 6 VNone"
    by code_simp+
  have i: "fst (ingest_month_into_apr_bundle example_lib blank_world ''m.xlsm'' ''r.xlsx'') =
     Inr blank_result"
    by code_simp
  from r l v k i show ?thesis by (simp add: blank_result_def)
qed

text \<open>
  C3, amended. A record that has none of the identity fields gets the key of six null
  elements. Such keys are compared like any other: when the first such record has a
  value to write it is written, unless that key is in the set already, and a later
  record with the all-null key is skipped as a duplicate and counted as one.
\<close>

theorem all_null_keys_collapse:
  assumes "\<forall>f\<in>set DEDUPE_FIELDS. f \<notin> set (index s1) \<or> at s1 f = VNone"
    and "\<forall>f\<in>set DEDUPE_FIELDS. f \<notin> set (index s2) \<or> at s2 f = VNone"
    and "row_has_any L res s1"
  shows "make_row_key L s1 = replicate 6 VNone \<and> make_row_key L s2 = replicate 6 VNone \<and>
         (replicate 6 VNone \<notin> existing_keys st \<longrightarrow>
            written (write_row L res start s1 st) = written st + 1) \<and>
         (let st' = write_loop L res start (s1 # between) st
          in write_loop L res start (s1 # between @ [s2]) st =
               st'\<lparr>duplicates_skipped := duplicates_skipped st' + 1\<rparr>)"
proof -
  have k1: "make_row_key L s1 = replicate 6 VNone"
    using assms(1) by (rule make_row_key_all_null)
  have k2: "make_row_key L s2 = replicate 6 VNone"
    using assms(2) by (rule make_row_key_all_null)
  have "make_row_key L s1 \<in> existing_keys (write_row L res start s1 st)"
    using assms(3) by (simp add: write_row_keys)
  hence "make_row_key L s1 \<in>
           existing_keys (write_loop L res start between (write_row L res start s1 st))"
    by (rule write_loop_keys_mono)
  hence "make_row_key L s2 \<in> existing_keys (write_loop L res start (s1 # between) st)"
    by (simp add: k1 k2)
  hence "write_row L res start s2 (write_loop L res start (s1 # between) st) =
           (write_loop L res start (s1 # between) st)
             \<lparr>duplicates_skipped :=
                duplicates_skipped (write_loop L res start (s1 # between) st) + 1\<rparr>"
    by (rule write_row_duplicate)
  moreover have "write_loop L res start (s1 # between @ [s2]) st =
      write_row L res start s2 (write_loop L res start (s1 # between) st)"
    using write_loop_append [of L res start "s1 # between" "[s2]" st] by simp
  moreover have "replicate 6 VNone \<notin> existing_keys st \<longrightarrow>
            written (write_row L res start s1 st) = written st + 1"
    using assms(3) by (simp add: write_row_written k1)
  ultimately show ?thesis using k1 k2 by (simp add: Let_def)
qed

theorem all_null_keys_collapse_witness:
  "(\<forall>f\<in>set DEDUPE_FIELDS. f \<notin> set (index (month_rows blank_frame ! 0)) \<or>
       at (month_rows blank_frame ! 0) f = VNone) \<and>
   (\<forall>f\<in>set DEDUPE_FIELDS. f \<notin> set (index (month_rows blank_frame ! 1)) \<or>
       at (month_rows blank_frame ! 1) f = VNone) \<and>
   row_has_any example_lib (resolved_of example_lib small_ledger blank_frame)
     (month_rows blank_frame ! 0) \<and>
   replicate 6 VNone \<notin> existing_keys (initial_state example_lib small_ledger) \<and>
   written (write_row example_lib (resolved_of example_lib small_ledger blank_frame) 3
              (month_rows blank_frame ! 0) (initial_state example_lib small_ledger)) = 1 \<and>
   (let st' = write_loop example_lib (resolved_of example_lib small_ledger blank_frame) 3
                [month_rows blank_frame ! 0] (initial_state example_lib small_ledger)
    in write_loop example_lib (resolved_of example_lib small_ledger blank_frame) 3
         [month_rows blank_frame ! 0, month_rows blank_frame ! 1]
         (initial_state example_lib small_ledger) =
       st'\<lparr>duplicates_skipped := duplicates_skipped st' + 1\<rparr>)"
proof -
  have h1: "\<forall>f\<in>set DEDUPE_FIELDS. f \<notin> set (index (month_rows blank_frame ! 0)) \<or>
       at (month_rows blank_frame ! 0) f = VNone"
    by code_simp
  have h2: "\<forall>f\<in>set DEDUPE_FIELDS. f \<notin> set (index (month_rows blank_frame ! 1)) \<or>
       at (month_rows blank_frame ! 1) f = VNone"
    by code_simp
  have h3: "row_has_any example_lib (resolved_of example_lib small_ledger blank_frame)
     (month_rows blank_frame ! 0)"
    by code_simp
  have h4: "replicate 6 VNone \<notin> existing_keys (initial_state example_lib small_ledger)"
    by code_simp
  have w0: "written (initial_state example_lib small_ledger) = 0"
    by (simp add: initial_state_def)
  from all_null_keys_collapse [OF h1 h2 h3, of "initial_state example_lib small_ledger" 3 "[]"]
    h1 h2 h3 h4 w0
  show ?thesis by (simp add: Let_def)
qed
end
